theory Spec2Isabelle
  imports Main "HOL-Library.Word"
begin

unbundle bit_operations_syntax

section \<open>libhear: the encrypted all-reduce interposer (src/hear.cpp)\<close>

text \<open>
  The development embeds the production configuration of \<^verbatim>\<open>hear.cpp\<close>: the build
  switches \<^verbatim>\<open>ALLREDUCE_BASELINE\<close>, \<^verbatim>\<open>DCHECK\<close>, \<^verbatim>\<open>TSC_PROF\<close> and \<^verbatim>\<open>DEBUG\<close> are off
  (they add a pass-through, a validation buffer, cycle counters and logging), and the two
  switches that change the control flow of the reduction, \<^verbatim>\<open>USE_MPOOL\<close> and
  \<^verbatim>\<open>USE_PIPELINING\<close>, are fields of a build record.  \<^verbatim>\<open>assert\<close> is live: a failed
  assertion ends the call with \<open>AssertFail\<close>.  Reading a \<^verbatim>\<open>std::vector\<close> out of
  range and writing past the end of a scratch buffer are undefined in C++ and end the call
  with \<open>Fault\<close>.  An exception of \<^verbatim>\<open>new char[]\<close> is caught nowhere in \<^verbatim>\<open>hear.cpp\<close>
  and leaves the call with \<open>Throw\<close>.
\<close>

subsection \<open>Values of the message passing library\<close>

type_synonym u32 = "32 word"
type_synonym MPI_Comm = nat
type_synonym buffer = "u32 list"

datatype MPI_Datatype = MPI_INT | MPI_FLOAT | MPI_DOUBLE | MPI_LONG_LONG | MPI_UNSIGNED | MPI_CHAR

datatype MPI_Op = MPI_SUM | MPI_PROD | MPI_MAX | MPI_MIN | MPI_BAND | MPI_BOR

definition MPI_SUCCESS :: int where "MPI_SUCCESS = 0"
definition MPI_ERR_BUFFER :: int where "MPI_ERR_BUFFER = 1"
definition MPI_ERR_TYPE :: int where "MPI_ERR_TYPE = 3"

definition root_rank :: int where "root_rank = 0"

text \<open>
  The counts, sizes and byte offsets of \<^verbatim>\<open>hear.cpp\<close> are of type \<^verbatim>\<open>int\<close>, 32 bits wide.
  They are integers here, and \<open>int32 x\<close> is what an \<^verbatim>\<open>int\<close> holds when the exact result
  of an operation on it is \<open>x\<close>: the result in two's complement, wrapped around.
\<close>

definition int32 :: "int \<Rightarrow> int" where
  "int32 x = (x + 2 ^ 31) mod 2 ^ 32 - 2 ^ 31"

fun MPI_Type_size :: "MPI_Datatype \<Rightarrow> int" where
  "MPI_Type_size MPI_INT = 4"
| "MPI_Type_size MPI_FLOAT = 4"
| "MPI_Type_size MPI_DOUBLE = 8"
| "MPI_Type_size MPI_LONG_LONG = 8"
| "MPI_Type_size MPI_UNSIGNED = 4"
| "MPI_Type_size MPI_CHAR = 1"

text \<open>
  The library itself is external.  Each shadow call is a function of its arguments that
  gives the return code and the data the call delivers:
  \<^item> \<open>PMPI_Allreduce send recv count dtype op comm\<close> gives the code and the receive buffer
    after the call;
  \<^item> \<open>PMPI_Iallreduce send off count dtype op comm\<close> gives the code and the block that
    \<^verbatim>\<open>PMPI_Wait\<close> will have put at byte offset \<open>off\<close> of the receive buffer;
  \<^item> \<open>PMPI_Allgather comm\<close> gives the code and, per index, the word contributed by that
    rank (with \<^verbatim>\<open>MPI_IN_PLACE\<close> the caller's own slot is its contribution and stays);
  \<^item> \<open>PMPI_Bcast comm\<close> gives the code and the word delivered from the root (the root's
    own buffer is the source and stays).
\<close>

record MPL =
  MPI_Comm_size :: "MPI_Comm \<Rightarrow> int"
  MPI_Comm_rank :: "MPI_Comm \<Rightarrow> int"
  PMPI_Allreduce :: "buffer \<Rightarrow> buffer \<Rightarrow> int \<Rightarrow> MPI_Datatype \<Rightarrow> MPI_Op \<Rightarrow> MPI_Comm \<Rightarrow> int \<times> buffer"
  PMPI_Iallreduce :: "buffer \<Rightarrow> int \<Rightarrow> int \<Rightarrow> MPI_Datatype \<Rightarrow> MPI_Op \<Rightarrow> MPI_Comm \<Rightarrow> int \<times> buffer"
  PMPI_Allgather :: "MPI_Comm \<Rightarrow> int \<times> (nat \<Rightarrow> u32)"
  PMPI_Bcast :: "MPI_Comm \<Rightarrow> int \<times> u32"

subsection \<open>The scratch-buffer pool\<close>

text \<open>
  Modelled from the spec: \<^verbatim>\<open>mpool::SbufMpool\<close> (\<^verbatim>\<open>mpool.hpp\<close> is not among the sources).
  A bounded ring of slabs, each of \<open>mpool_sbuf_len\<close> bytes (the second argument of the
  constructor, \<^verbatim>\<open>_sbuf_mpool(mpool_size, mpool_sbuf_len)\<close>): \<open>acquire_buf\<close> hands out a
  slab or fails (the null pointer) when all are in use, \<open>release_buf\<close> returns a slab to
  the ring.  Neither looks at a size.
\<close>

record SbufMpool =
  free_slabs :: "nat list"
  mpool_sbuf_len :: nat

definition acquire_buf :: "SbufMpool \<Rightarrow> nat option \<times> SbufMpool" where
  "acquire_buf mp =
     (case free_slabs mp of
        [] \<Rightarrow> (None, mp)
      | s # rest \<Rightarrow> (Some s, mp\<lparr>free_slabs := rest\<rparr>))"

definition release_buf :: "SbufMpool \<Rightarrow> nat \<Rightarrow> SbufMpool" where
  "release_buf mp s = mp\<lparr>free_slabs := free_slabs mp @ [s]\<rparr>"

subsection \<open>HearState and the process around it\<close>

text \<open>
  The mask engine (\<^verbatim>\<open>encrypt.hpp\<close>) is held by \<^verbatim>\<open>HearState\<close> in \<^verbatim>\<open>std::function\<close>
  members, which are fields here.  An encrypt function gets the source block (the memory
  from the source pointer on), the count, the rank, the shared keys, the nonce and, for
  the integer operators, the last-rank flag, and gives the content of the destination.
  A decrypt function gets the memory from the receive pointer on and gives it back.
  Floats are their 32-bit patterns.
\<close>

record HearState =
  k_s_storage :: "u32 list list"
  k_s_map :: "MPI_Comm \<rightharpoonup> nat"
  k_n_storage :: "u32 list"
  k_n_map :: "MPI_Comm \<rightharpoonup> nat"
  encrypt_block_int_sum :: "buffer \<Rightarrow> int \<Rightarrow> int \<Rightarrow> u32 list \<Rightarrow> u32 \<Rightarrow> bool \<Rightarrow> buffer"
  decrypt_block_int_sum :: "buffer \<Rightarrow> int \<Rightarrow> u32 list \<Rightarrow> u32 \<Rightarrow> buffer"
  encrypt_block_int_prod :: "buffer \<Rightarrow> int \<Rightarrow> int \<Rightarrow> u32 list \<Rightarrow> u32 \<Rightarrow> bool \<Rightarrow> buffer"
  decrypt_block_int_prod :: "buffer \<Rightarrow> int \<Rightarrow> u32 list \<Rightarrow> u32 \<Rightarrow> buffer"
  encrypt_block_float_sum :: "buffer \<Rightarrow> int \<Rightarrow> int \<Rightarrow> u32 list \<Rightarrow> u32 \<Rightarrow> buffer"
  decrypt_block_float_sum :: "buffer \<Rightarrow> int \<Rightarrow> u32 list \<Rightarrow> u32 \<Rightarrow> buffer"
  prng :: "u32 \<Rightarrow> u32"
  sbuf_mpool :: SbufMpool

text \<open>
  The trace is the order in which a call reaches the store, the pool, the mask engine and
  the library.  It is written, never read.
\<close>

datatype event =
    Ev_update_k_n MPI_Comm
  | Ev_acquire "nat option"
  | Ev_release nat
  | Ev_encrypt MPI_Datatype MPI_Op int u32
  | Ev_decrypt MPI_Datatype MPI_Op int
  | Ev_PMPI_Allreduce buffer int MPI_Datatype MPI_Op MPI_Comm int
  | Ev_PMPI_Iallreduce buffer int int MPI_Datatype MPI_Op MPI_Comm int
  | Ev_PMPI_Wait

text \<open>
  The process: the \<^verbatim>\<open>hear\<close> object, the heap blocks that \<^verbatim>\<open>new char[]\<close> handed out and
  \<^verbatim>\<open>delete[]\<close> has not taken back, the content of every scratch buffer, the random words
  \<^verbatim>\<open>encryption::encr_noise_generator\<close> will give, and the trace.
\<close>

record process =
  hear :: HearState
  heap_live :: "nat list"
  heap_next :: nat
  sbuf_mem :: "nat \<Rightarrow> buffer"
  noise_src :: "nat \<Rightarrow> u32"
  noise_pos :: nat
  trace :: "event list"

text \<open>
  A call returns, or ends the process at a failed \<^verbatim>\<open>assert\<close>, or runs into undefined
  behaviour, or is left by an exception; the last three keep the process as it was at
  that point.
\<close>

datatype 'a outcome = Return 'a | AssertFail process | Fault process | Throw process

record build =
  USE_MPOOL :: bool
  USE_PIPELINING :: bool
  pipelining_block_size :: int

definition emit :: "event \<Rightarrow> process \<Rightarrow> process" where
  "emit e p = p\<lparr>trace := trace p @ [e]\<rparr>"

definition encr_noise_generator :: "process \<Rightarrow> u32 \<times> process" where
  "encr_noise_generator p = (noise_src p (noise_pos p), p\<lparr>noise_pos := Suc (noise_pos p)\<rparr>)"

subsection \<open>std::unordered_map and std::vector\<close>

text \<open>\<^verbatim>\<open>m[k]\<close> on a missing key inserts the key with the value 0 and gives 0.\<close>

definition umap_index :: "(MPI_Comm \<rightharpoonup> nat) \<Rightarrow> MPI_Comm \<Rightarrow> nat \<times> (MPI_Comm \<rightharpoonup> nat)" where
  "umap_index m k = (case m k of Some i \<Rightarrow> (i, m) | None \<Rightarrow> (0, m(k \<mapsto> 0)))"

text \<open>\<^verbatim>\<open>m.insert({k, v}).second\<close>: a present key keeps its value and the flag is false.\<close>

definition umap_insert :: "(MPI_Comm \<rightharpoonup> nat) \<Rightarrow> MPI_Comm \<Rightarrow> nat \<Rightarrow> (MPI_Comm \<rightharpoonup> nat) \<times> bool" where
  "umap_insert m k v = (case m k of Some _ \<Rightarrow> (m, False) | None \<Rightarrow> (m(k \<mapsto> v), True))"

definition in_range :: "int \<Rightarrow> 'a list \<Rightarrow> bool" where
  "in_range i xs \<longleftrightarrow> 0 \<le> i \<and> i < int (length xs)"

subsection \<open>HearState::update_k_n\<close>

definition update_k_n :: "process \<Rightarrow> MPI_Comm \<Rightarrow> process outcome" where
  "update_k_n p comm =
     (let h = hear p;
          (i, m) = umap_index (k_n_map h) comm
      in if i < length (k_n_storage h)
         then let tmp = prng h (k_n_storage h ! i)
              in Return (emit (Ev_update_k_n comm)
                   (p\<lparr>hear := h\<lparr>k_n_map := m, k_n_storage := (k_n_storage h)[i := tmp]\<rparr>\<rparr>))
         else Fault (p\<lparr>hear := h\<lparr>k_n_map := m\<rparr>\<rparr>))"

subsection \<open>HearState::insert_new_comm\<close>

definition insert_new_comm :: "MPL \<Rightarrow> process \<Rightarrow> MPI_Comm \<Rightarrow> (int \<times> process) outcome" where
  "insert_new_comm mpl p comm =
     (let comm_size = MPI_Comm_size mpl comm;
          my_rank = MPI_Comm_rank mpl comm;
          h = hear p;
          fresh = replicate (nat comm_size) (word_of_int my_rank :: u32)
      in if \<not> in_range my_rank fresh then Fault (p\<lparr>hear := h\<lparr>k_s_storage := k_s_storage h @ [fresh]\<rparr>\<rparr>)
         else
           let (w, p1) = encr_noise_generator p;
               ks1 = k_s_storage h @ [fresh[nat my_rank := w]];
               (ksm, ok) = umap_insert (k_s_map h) comm (length ks1 - 1)
           in if \<not> ok then AssertFail (p1\<lparr>hear := h\<lparr>k_s_storage := ks1, k_s_map := ksm\<rparr>\<rparr>)
              else
                let (i, ksm') = umap_index ksm comm;
                    (ret, gathered) = PMPI_Allgather mpl comm;
                    ks2 = ks1[i := map (\<lambda>j. if int j = my_rank then (ks1 ! i) ! j else gathered j)
                                     [0 ..< length (ks1 ! i)]];
                    h1 = h\<lparr>k_s_storage := ks2, k_s_map := ksm'\<rparr>
                in if ret \<noteq> MPI_SUCCESS then Return (ret, p1\<lparr>hear := h1\<rparr>)
                   else
                     let (v, p2) = (if my_rank = root_rank then encr_noise_generator p1 else (42, p1));
                         kn1 = k_n_storage h1 @ [v];
                         (knm, ok2) = umap_insert (k_n_map h1) comm (length kn1 - 1)
                     in if \<not> ok2 then AssertFail (p2\<lparr>hear := h1\<lparr>k_n_storage := kn1, k_n_map := knm\<rparr>\<rparr>)
                        else
                          let (n, knm') = umap_index knm comm;
                              (ret2, delivered) = PMPI_Bcast mpl comm;
                              kn2 = (if my_rank = root_rank then kn1 else kn1[n := delivered]);
                              h2 = h1\<lparr>k_n_storage := kn2, k_n_map := knm'\<rparr>
                          in if ret2 \<noteq> MPI_SUCCESS then Return (ret2, p2\<lparr>hear := h2\<rparr>)
                             else Return (MPI_SUCCESS, p2\<lparr>hear := h2\<rparr>))"

subsection \<open>Scratch buffers\<close>

text \<open>
  The two branches of \<^verbatim>\<open>#ifndef USE_MPOOL\<close> in \<^verbatim>\<open>encrypt_sendbuf\<close>.  \<^verbatim>\<open>new char[sbuf_len]\<close>
  with the \<^verbatim>\<open>int\<close> \<^verbatim>\<open>sbuf_len\<close> throws when \<^verbatim>\<open>sbuf_len\<close> is negative and otherwise gives a
  block of \<^verbatim>\<open>sbuf_len\<close> bytes that the heap has not handed out (the heap is taken to be
  large enough for it; \<^verbatim>\<open>new\<close> never gives the null pointer).  The pool gives a slab of
  \<open>mpool_sbuf_len\<close> bytes or the null pointer \<open>None\<close>, whatever \<^verbatim>\<open>sbuf_len\<close> is.
\<close>

definition sbuf_alloc :: "build \<Rightarrow> process \<Rightarrow> int \<Rightarrow> (nat option \<times> process) outcome" where
  "sbuf_alloc bld p sbuf_len =
     (if \<not> USE_MPOOL bld
      then if sbuf_len < 0 then Throw p
           else Return (Some (heap_next p),
                  emit (Ev_acquire (Some (heap_next p)))
                    (p\<lparr>heap_live := heap_next p # heap_live p, heap_next := Suc (heap_next p)\<rparr>))
      else let (b, mp) = acquire_buf (sbuf_mpool (hear p))
           in Return (b, emit (Ev_acquire b) (p\<lparr>hear := (hear p)\<lparr>sbuf_mpool := mp\<rparr>\<rparr>)))"

text \<open>
  The bytes of the scratch buffer that \<open>sbuf_alloc\<close> gave for \<^verbatim>\<open>sbuf_len\<close>, and whether
  \<open>count\<close> elements of \<open>type_size\<close> bytes written from its start go past its end.
\<close>

definition sbuf_room :: "build \<Rightarrow> process \<Rightarrow> int \<Rightarrow> int" where
  "sbuf_room bld p sbuf_len =
     (if \<not> USE_MPOOL bld then sbuf_len else int (mpool_sbuf_len (sbuf_mpool (hear p))))"

definition overruns :: "int \<Rightarrow> int \<Rightarrow> int \<Rightarrow> bool" where
  "overruns room count type_size \<longleftrightarrow> 0 < count \<and> room < count * type_size"

text \<open>The two branches of \<^verbatim>\<open>#ifndef USE_MPOOL\<close> at \<^verbatim>\<open>fail_cleanup\<close> and in \<^verbatim>\<open>release_memory\<close>.\<close>

definition sbuf_free :: "build \<Rightarrow> process \<Rightarrow> nat \<Rightarrow> process" where
  "sbuf_free bld p b =
     emit (Ev_release b)
       (if \<not> USE_MPOOL bld
        then p\<lparr>heap_live := remove1 b (heap_live p)\<rparr>
        else p\<lparr>hear := (hear p)\<lparr>sbuf_mpool := release_buf (sbuf_mpool (hear p)) b\<rparr>\<rparr>)"

subsection \<open>HearState::release_memory\<close>

definition release_memory :: "build \<Rightarrow> process \<Rightarrow> nat option \<Rightarrow> process outcome" where
  "release_memory bld p buf =
     (case buf of
        None \<Rightarrow> AssertFail p
      | Some b \<Rightarrow> Return (sbuf_free bld p b))"

subsection \<open>HearState::encrypt_sendbuf\<close>

text \<open>
  The argument pair \<^verbatim>\<open>_k_s_storage[_k_s_map[comm]], _k_n_storage[_k_n_map[comm]]\<close> of every
  engine call: both \<^verbatim>\<open>operator[]\<close> of the maps, then both reads of the vectors
  (\<open>None\<close> when a read is out of range).
\<close>

definition lookup_keys :: "HearState \<Rightarrow> MPI_Comm \<Rightarrow> (u32 list \<times> u32 \<times> HearState) option" where
  "lookup_keys h comm =
     (let (i, sm) = umap_index (k_s_map h) comm;
          (n, nm) = umap_index (k_n_map h) comm
      in if i < length (k_s_storage h) \<and> n < length (k_n_storage h)
         then Some (k_s_storage h ! i, k_n_storage h ! n, h\<lparr>k_s_map := sm, k_n_map := nm\<rparr>)
         else None)"

text \<open>
  \<^verbatim>\<open>sbuf_len = count * type_size\<close> is computed in \<^verbatim>\<open>int\<close>.  Each engine writes the \<open>count\<close>
  masked elements to the scratch buffer; nothing compares \<open>count\<close> with the size of the
  buffer before.
\<close>

definition encrypt_sendbuf ::
  "build \<Rightarrow> MPL \<Rightarrow> process \<Rightarrow> buffer \<Rightarrow> int \<Rightarrow> MPI_Datatype \<Rightarrow> MPI_Op \<Rightarrow> MPI_Comm
     \<Rightarrow> (nat option \<times> process) outcome" where
  "encrypt_sendbuf bld mpl p sendbuf count datatype op comm =
     (let comm_size = MPI_Comm_size mpl comm;
          my_rank = MPI_Comm_rank mpl comm;
          type_size = MPI_Type_size datatype;
          sbuf_len = int32 (count * type_size)
      in case sbuf_alloc bld p sbuf_len of
           AssertFail q \<Rightarrow> AssertFail q
         | Fault q \<Rightarrow> Fault q
         | Throw q \<Rightarrow> Throw q
         | Return (encr_sbuf, p1) \<Rightarrow>
             (case encr_sbuf of
                None \<Rightarrow> Return (None, p1)
              | Some b \<Rightarrow>
                  if op = MPI_SUM then
                    if datatype = MPI_INT then
                      (case lookup_keys (hear p1) comm of
                         Some (ks, kn, h) \<Rightarrow>
                           if overruns (sbuf_room bld p1 sbuf_len) count type_size
                           then Fault (p1\<lparr>hear := h\<rparr>)
                           else Return (Some b, emit (Ev_encrypt datatype op count kn)
                             (p1\<lparr>hear := h,
                                 sbuf_mem := (sbuf_mem p1)(b := encrypt_block_int_sum h sendbuf count
                                    my_rank ks kn (my_rank = comm_size - 1))\<rparr>))
                       | None \<Rightarrow> Fault p1)
                    else if datatype = MPI_FLOAT then
                      (case lookup_keys (hear p1) comm of
                         Some (ks, kn, h) \<Rightarrow>
                           if overruns (sbuf_room bld p1 sbuf_len) count type_size
                           then Fault (p1\<lparr>hear := h\<rparr>)
                           else Return (Some b, emit (Ev_encrypt datatype op count kn)
                             (p1\<lparr>hear := h,
                                 sbuf_mem := (sbuf_mem p1)(b := encrypt_block_float_sum h sendbuf count
                                    my_rank ks kn)\<rparr>))
                       | None \<Rightarrow> Fault p1)
                    else Return (None, sbuf_free bld p1 b)
                  else if op = MPI_PROD then
                    if datatype = MPI_INT then
                      (case lookup_keys (hear p1) comm of
                         Some (ks, kn, h) \<Rightarrow>
                           if overruns (sbuf_room bld p1 sbuf_len) count type_size
                           then Fault (p1\<lparr>hear := h\<rparr>)
                           else Return (Some b, emit (Ev_encrypt datatype op count kn)
                             (p1\<lparr>hear := h,
                                 sbuf_mem := (sbuf_mem p1)(b := encrypt_block_int_prod h sendbuf count
                                    my_rank ks kn (my_rank = comm_size - 1))\<rparr>))
                       | None \<Rightarrow> Fault p1)
                    else Return (None, sbuf_free bld p1 b)
                  else Return (None, sbuf_free bld p1 b)))"

subsection \<open>HearState::decrypt_recvbuf\<close>

text \<open>
  A pointer into the receive buffer is the buffer and a byte offset.  \<open>mem_from\<close> is the
  memory from the pointer on, \<open>mem_update\<close> puts the memory from the pointer on back, and
  \<open>mem_store\<close> writes one block at the pointer.
\<close>

definition cell_index :: "int \<Rightarrow> int \<Rightarrow> nat" where
  "cell_index off tsz = nat (off div tsz)"

definition mem_from :: "buffer \<Rightarrow> int \<Rightarrow> int \<Rightarrow> buffer" where
  "mem_from buf off tsz = drop (cell_index off tsz) buf"

definition mem_update :: "buffer \<Rightarrow> int \<Rightarrow> int \<Rightarrow> buffer \<Rightarrow> buffer" where
  "mem_update buf off tsz new = take (cell_index off tsz) buf @ new"

definition mem_store :: "buffer \<Rightarrow> int \<Rightarrow> int \<Rightarrow> buffer \<Rightarrow> buffer" where
  "mem_store buf off tsz blk =
     take (cell_index off tsz) buf @ blk @ drop (cell_index off tsz + length blk) buf"

definition decrypt_recvbuf ::
  "process \<Rightarrow> buffer \<Rightarrow> int \<Rightarrow> int \<Rightarrow> MPI_Datatype \<Rightarrow> MPI_Op \<Rightarrow> MPI_Comm
     \<Rightarrow> (int \<times> buffer \<times> process) outcome" where
  "decrypt_recvbuf p recvbuf off count datatype op comm =
     (let tsz = MPI_Type_size datatype
      in if op = MPI_SUM then
           if datatype = MPI_INT then
             (case lookup_keys (hear p) comm of
                Some (ks, kn, h) \<Rightarrow>
                  Return (MPI_SUCCESS,
                    mem_update recvbuf off tsz (decrypt_block_int_sum h (mem_from recvbuf off tsz) count ks kn),
                    emit (Ev_decrypt datatype op count) (p\<lparr>hear := h\<rparr>))
              | None \<Rightarrow> Fault p)
           else if datatype = MPI_FLOAT then
             (case lookup_keys (hear p) comm of
                Some (ks, kn, h) \<Rightarrow>
                  Return (MPI_SUCCESS,
                    mem_update recvbuf off tsz (decrypt_block_float_sum h (mem_from recvbuf off tsz) count ks kn),
                    emit (Ev_decrypt datatype op count) (p\<lparr>hear := h\<rparr>))
              | None \<Rightarrow> Fault p)
           else Return (MPI_ERR_TYPE, recvbuf, p)
         else if op = MPI_PROD then
           if datatype = MPI_INT then
             (case lookup_keys (hear p) comm of
                Some (ks, kn, h) \<Rightarrow>
                  Return (MPI_SUCCESS,
                    mem_update recvbuf off tsz (decrypt_block_int_prod h (mem_from recvbuf off tsz) count ks kn),
                    emit (Ev_decrypt datatype op count) (p\<lparr>hear := h\<rparr>))
              | None \<Rightarrow> Fault p)
           else Return (MPI_ERR_TYPE, recvbuf, p)
         else Return (MPI_ERR_TYPE, recvbuf, p))"

subsection \<open>MPI_Allreduce\<close>

text \<open>
  The locals of the pipelined path.  The request \<^verbatim>\<open>req\<close> is the block its
  \<^verbatim>\<open>PMPI_Iallreduce\<close> delivers at \<^verbatim>\<open>PMPI_Wait\<close>.  \<^verbatim>\<open>prev_count\<close>, \<^verbatim>\<open>next_count\<close>,
  \<^verbatim>\<open>encr_sendbuf_next\<close> and \<^verbatim>\<open>req\<close> are declared without a value; what they hold until
  their first assignment is the \<open>indeterminate\<close> argument of the call.
\<close>

record locals =
  encr_sendbuf :: "nat option"
  encr_sendbuf_next :: "nat option"
  prev_offset :: int
  cur_offset :: int
  next_offset :: int
  prev_count :: int
  cur_count :: int
  next_count :: int
  total_count :: int
  req :: buffer
  rbuf :: buffer
  proc :: process

record indeterminate =
  junk_prev_count :: int
  junk_next_count :: int
  junk_sendbuf_next :: "nat option"
  junk_req :: buffer

definition sbuf_content :: "process \<Rightarrow> nat option \<Rightarrow> buffer" where
  "sbuf_content p buf = (case buf of None \<Rightarrow> [] | Some b \<Rightarrow> sbuf_mem p b)"

text \<open>The label \<^verbatim>\<open>cleanup\<close>: release the current scratch buffer and return \<^verbatim>\<open>ret\<close>.\<close>

definition cleanup :: "build \<Rightarrow> process \<Rightarrow> nat option \<Rightarrow> int \<Rightarrow> buffer \<Rightarrow> (int \<times> buffer \<times> process) outcome" where
  "cleanup bld p buf ret recvbuf =
     (case release_memory bld p buf of
        Return p' \<Rightarrow> Return (ret, recvbuf, p')
      | AssertFail q \<Rightarrow> AssertFail q
      | Fault q \<Rightarrow> Fault q
      | Throw q \<Rightarrow> Throw q)"

text \<open>
  The body of \<^verbatim>\<open>while (total_count)\<close> in four parts.  Each part gives the locals after
  it together with \<open>None\<close> when control goes on to the next statement, or \<open>Some ret\<close> when
  it leaves by \<^verbatim>\<open>goto cleanup\<close> with that \<^verbatim>\<open>ret\<close>; \<open>then_do\<close> runs the next part in the
  first case only.
\<close>

definition then_do ::
  "(int option \<times> locals) outcome \<Rightarrow> (locals \<Rightarrow> (int option \<times> locals) outcome)
     \<Rightarrow> (int option \<times> locals) outcome" where
  "then_do m f =
     (case m of
        Return (None, v) \<Rightarrow> f v
      | Return (Some ret, v) \<Rightarrow> Return (Some ret, v)
      | AssertFail q \<Rightarrow> AssertFail q
      | Fault q \<Rightarrow> Fault q
      | Throw q \<Rightarrow> Throw q)"

text \<open>\<^verbatim>\<open>ret = PMPI_Iallreduce(...); if (ret != MPI_SUCCESS) goto cleanup;\<close>\<close>

definition pipeline_issue ::
  "MPL \<Rightarrow> MPI_Datatype \<Rightarrow> MPI_Op \<Rightarrow> MPI_Comm \<Rightarrow> locals \<Rightarrow> (int option \<times> locals) outcome" where
  "pipeline_issue mpl datatype op comm v =
     (let payload = sbuf_content (proc v) (encr_sendbuf v);
          (ret, blk) = PMPI_Iallreduce mpl payload (cur_offset v) (cur_count v) datatype op comm;
          v1 = v\<lparr>req := blk,
                 proc := emit (Ev_PMPI_Iallreduce payload (cur_offset v) (cur_count v)
                                 datatype op comm ret) (proc v)\<rparr>
      in if ret \<noteq> MPI_SUCCESS then Return (Some ret, v1) else Return (None, v1))"

text \<open>\<^verbatim>\<open>if (cur_offset > 0) { ret = hear->decrypt_recvbuf(...); if (ret != MPI_SUCCESS) goto cleanup; }\<close>\<close>

definition pipeline_prev ::
  "MPI_Datatype \<Rightarrow> MPI_Op \<Rightarrow> MPI_Comm \<Rightarrow> locals \<Rightarrow> (int option \<times> locals) outcome" where
  "pipeline_prev datatype op comm v =
     (if cur_offset v > 0 then
        case decrypt_recvbuf (proc v) (rbuf v) (prev_offset v) (prev_count v) datatype op comm of
          Return (ret, rb, p') \<Rightarrow>
            let v1 = v\<lparr>rbuf := rb, proc := p'\<rparr>
            in if ret \<noteq> MPI_SUCCESS then Return (Some ret, v1) else Return (None, v1)
        | AssertFail q \<Rightarrow> AssertFail q
        | Fault q \<Rightarrow> Fault q
        | Throw q \<Rightarrow> Throw q
      else Return (None, v))"

text \<open>
  \<^verbatim>\<open>total_count -= cur_count; if (total_count) { ... }\<close>: mask the next block into a new
  scratch buffer.  The difference, the product \<^verbatim>\<open>cur_count * dtype_size\<close> and the sum
  \<^verbatim>\<open>next_offset += ...\<close> are computed in \<^verbatim>\<open>int\<close>.  With a negative \<^verbatim>\<open>next_offset\<close> the
  pointers \<^verbatim>\<open>sendbuf + next_offset\<close> and \<^verbatim>\<open>recvbuf + next_offset\<close> lie before the buffers,
  which is undefined.
\<close>

definition pipeline_next ::
  "build \<Rightarrow> MPL \<Rightarrow> buffer \<Rightarrow> MPI_Datatype \<Rightarrow> MPI_Op \<Rightarrow> MPI_Comm \<Rightarrow> int \<Rightarrow> locals
     \<Rightarrow> (int option \<times> locals) outcome" where
  "pipeline_next bld mpl sendbuf datatype op comm dtype_size v0 =
     (let v = v0\<lparr>total_count := int32 (total_count v0 - cur_count v0)\<rparr>
      in if total_count v \<noteq> 0 then
           let v1 = v\<lparr>next_offset := int32 (next_offset v + int32 (cur_count v * dtype_size))\<rparr>;
               v2 = v1\<lparr>next_count := (if total_count v1 < pipelining_block_size bld
                                        then total_count v1 else pipelining_block_size bld)\<rparr>
           in if next_offset v2 < 0 then Fault (proc v2)
              else
                case encrypt_sendbuf bld mpl (proc v2) (mem_from sendbuf (next_offset v2) dtype_size)
                       (next_count v2) datatype op comm of
                  Return (nb, p') \<Rightarrow>
                    let v3 = v2\<lparr>encr_sendbuf_next := nb, proc := p'\<rparr>
                    in if encr_sendbuf_next v3 = None then Return (Some MPI_ERR_BUFFER, v3)
                       else Return (None, v3)
                | AssertFail q \<Rightarrow> AssertFail q
                | Fault q \<Rightarrow> Fault q
                | Throw q \<Rightarrow> Throw q
         else Return (None, v))"

text \<open>
  \<^verbatim>\<open>PMPI_Wait\<close> (its return code is dropped), the rotation of the counts and offsets,
  \<^verbatim>\<open>release_memory(encr_sendbuf)\<close> and \<^verbatim>\<open>encr_sendbuf = encr_sendbuf_next\<close>.
\<close>

definition pipeline_rotate :: "build \<Rightarrow> int \<Rightarrow> locals \<Rightarrow> (int option \<times> locals) outcome" where
  "pipeline_rotate bld dtype_size v =
     (let v1 = v\<lparr>rbuf := mem_store (rbuf v) (cur_offset v) dtype_size (req v),
                 proc := emit Ev_PMPI_Wait (proc v)\<rparr>;
          v2 = v1\<lparr>prev_count := cur_count v1, prev_offset := cur_offset v1\<rparr>;
          v3 = v2\<lparr>cur_count := next_count v2, cur_offset := next_offset v2\<rparr>
      in case release_memory bld (proc v3) (encr_sendbuf v3) of
           AssertFail q \<Rightarrow> AssertFail q
         | Fault q \<Rightarrow> Fault q
         | Throw q \<Rightarrow> Throw q
         | Return p' \<Rightarrow> Return (None, v3\<lparr>proc := p', encr_sendbuf := encr_sendbuf_next v3\<rparr>))"

text \<open>One pass through the body of \<^verbatim>\<open>while (total_count)\<close>.\<close>

definition pipeline_step ::
  "build \<Rightarrow> MPL \<Rightarrow> buffer \<Rightarrow> MPI_Datatype \<Rightarrow> MPI_Op \<Rightarrow> MPI_Comm \<Rightarrow> int \<Rightarrow> locals
     \<Rightarrow> (int option \<times> locals) outcome" where
  "pipeline_step bld mpl sendbuf datatype op comm dtype_size v =
     then_do (pipeline_issue mpl datatype op comm v) (\<lambda>v1.
     then_do (pipeline_prev datatype op comm v1) (\<lambda>v2.
     then_do (pipeline_next bld mpl sendbuf datatype op comm dtype_size v2)
       (pipeline_rotate bld dtype_size)))"

text \<open>
  \<^verbatim>\<open>while (total_count)\<close>.  The loop need not end (a block size of 0 with a positive count
  never makes progress): \<open>None\<close> is the call that does not return.
\<close>

partial_function (option) pipeline_loop ::
  "build \<Rightarrow> MPL \<Rightarrow> buffer \<Rightarrow> MPI_Datatype \<Rightarrow> MPI_Op \<Rightarrow> MPI_Comm \<Rightarrow> int \<Rightarrow> locals
     \<Rightarrow> (int option \<times> locals) outcome option" where
  "pipeline_loop bld mpl sendbuf datatype op comm dtype_size v =
     (if total_count v = 0 then Some (Return (None, v))
      else case pipeline_step bld mpl sendbuf datatype op comm dtype_size v of
             Return (None, v') \<Rightarrow> pipeline_loop bld mpl sendbuf datatype op comm dtype_size v'
           | Return (Some ret, v') \<Rightarrow> Some (Return (Some ret, v'))
           | AssertFail q \<Rightarrow> Some (AssertFail q)
           | Fault q \<Rightarrow> Some (Fault q)
           | Throw q \<Rightarrow> Some (Throw q))"

declare pipeline_loop.simps [code]

text \<open>The non-pipelined path, from \<^verbatim>\<open>encrypt_sendbuf\<close> to the return.\<close>

definition allreduce_blocking ::
  "build \<Rightarrow> MPL \<Rightarrow> process \<Rightarrow> buffer \<Rightarrow> buffer \<Rightarrow> int \<Rightarrow> MPI_Datatype \<Rightarrow> MPI_Op \<Rightarrow> MPI_Comm
     \<Rightarrow> (int \<times> buffer \<times> process) outcome" where
  "allreduce_blocking bld mpl p sendbuf recvbuf count datatype op comm =
     (case encrypt_sendbuf bld mpl p sendbuf count datatype op comm of
        AssertFail q \<Rightarrow> AssertFail q
      | Fault q \<Rightarrow> Fault q
      | Throw q \<Rightarrow> Throw q
      | Return (None, p1) \<Rightarrow> Return (MPI_ERR_BUFFER, recvbuf, p1)
      | Return (Some b, p1) \<Rightarrow>
          let payload = sbuf_mem p1 b;
              (ret, rb) = PMPI_Allreduce mpl payload recvbuf count datatype op comm;
              p2 = emit (Ev_PMPI_Allreduce payload count datatype op comm ret) p1
          in if ret \<noteq> MPI_SUCCESS then cleanup bld p2 (Some b) ret rb
             else
               (case decrypt_recvbuf p2 rb 0 count datatype op comm of
                  AssertFail q \<Rightarrow> AssertFail q
                | Fault q \<Rightarrow> Fault q
                | Throw q \<Rightarrow> Throw q
                | Return (ret2, rb2, p3) \<Rightarrow>
                    if ret2 \<noteq> MPI_SUCCESS then cleanup bld p3 (Some b) ret2 rb2
                    else
                      (case release_memory bld p3 (Some b) of
                         AssertFail q \<Rightarrow> AssertFail q
                       | Fault q \<Rightarrow> Fault q
                       | Throw q \<Rightarrow> Throw q
                       | Return p4 \<Rightarrow> Return (MPI_SUCCESS, rb2, p4))))"

text \<open>The pipelined path, from \<^verbatim>\<open>total_count = count\<close> to the return.\<close>

definition allreduce_pipelined ::
  "build \<Rightarrow> MPL \<Rightarrow> indeterminate \<Rightarrow> process \<Rightarrow> buffer \<Rightarrow> buffer \<Rightarrow> int \<Rightarrow> int \<Rightarrow> MPI_Datatype
     \<Rightarrow> MPI_Op \<Rightarrow> MPI_Comm \<Rightarrow> (int \<times> buffer \<times> process) outcome option" where
  "allreduce_pipelined bld mpl junk p sendbuf recvbuf count dtype_size datatype op comm =
     (let cnt0 = (if count < pipelining_block_size bld then count else pipelining_block_size bld)
      in case encrypt_sendbuf bld mpl p sendbuf cnt0 datatype op comm of
           AssertFail q \<Rightarrow> Some (AssertFail q)
         | Fault q \<Rightarrow> Some (Fault q)
         | Throw q \<Rightarrow> Some (Throw q)
         | Return (b, p1) \<Rightarrow>
             if b = None then Some (cleanup bld p1 b MPI_ERR_BUFFER recvbuf)
             else
               (case pipeline_loop bld mpl sendbuf datatype op comm dtype_size
                       \<lparr>encr_sendbuf = b, encr_sendbuf_next = junk_sendbuf_next junk,
                        prev_offset = 0, cur_offset = 0, next_offset = 0,
                        prev_count = junk_prev_count junk, cur_count = cnt0,
                        next_count = junk_next_count junk, total_count = count,
                        req = junk_req junk, rbuf = recvbuf, proc = p1\<rparr> of
                  None \<Rightarrow> None
                | Some (AssertFail q) \<Rightarrow> Some (AssertFail q)
                | Some (Fault q) \<Rightarrow> Some (Fault q)
                | Some (Throw q) \<Rightarrow> Some (Throw q)
                | Some (Return (Some ret, v)) \<Rightarrow> Some (cleanup bld (proc v) (encr_sendbuf v) ret (rbuf v))
                | Some (Return (None, v)) \<Rightarrow>
                    (case decrypt_recvbuf (proc v) (rbuf v) (prev_offset v) (prev_count v) datatype op comm of
                       AssertFail q \<Rightarrow> Some (AssertFail q)
                     | Fault q \<Rightarrow> Some (Fault q)
                     | Throw q \<Rightarrow> Some (Throw q)
                     | Return (ret, rb, p2) \<Rightarrow>
                         if ret \<noteq> MPI_SUCCESS then Some (Return (ret, rb, p2))
                         else Some (Return (MPI_SUCCESS, rb, p2)))))"

definition MPI_Allreduce ::
  "build \<Rightarrow> MPL \<Rightarrow> indeterminate \<Rightarrow> process \<Rightarrow> buffer \<Rightarrow> buffer \<Rightarrow> int \<Rightarrow> MPI_Datatype \<Rightarrow> MPI_Op
     \<Rightarrow> MPI_Comm \<Rightarrow> (int \<times> buffer \<times> process) outcome option" where
  "MPI_Allreduce bld mpl junk p sendbuf recvbuf count datatype op comm =
     (if ((op \<noteq> MPI_SUM) \<and> (op \<noteq> MPI_PROD)) \<or> ((datatype \<noteq> MPI_INT) \<and> (datatype \<noteq> MPI_FLOAT))
      then let (ret, rb) = PMPI_Allreduce mpl sendbuf recvbuf count datatype op comm
           in Some (Return (ret, rb, emit (Ev_PMPI_Allreduce sendbuf count datatype op comm ret) p))
      else
        let dtype_size = MPI_Type_size datatype
        in case update_k_n p comm of
             AssertFail q \<Rightarrow> Some (AssertFail q)
           | Fault q \<Rightarrow> Some (Fault q)
           | Throw q \<Rightarrow> Some (Throw q)
           | Return p1 \<Rightarrow>
               if \<not> USE_PIPELINING bld
               then Some (allreduce_blocking bld mpl p1 sendbuf recvbuf count datatype op comm)
               else allreduce_pipelined bld mpl junk p1 sendbuf recvbuf count dtype_size datatype op comm)"

subsection \<open>Views of the state\<close>

text \<open>The shared-key vector and the nonce the store holds for a communicator.\<close>

definition K_s :: "HearState \<Rightarrow> MPI_Comm \<Rightarrow> u32 list option" where
  "K_s h comm =
     (case k_s_map h comm of
        None \<Rightarrow> None
      | Some i \<Rightarrow> if i < length (k_s_storage h) then Some (k_s_storage h ! i) else None)"

definition K_n :: "HearState \<Rightarrow> MPI_Comm \<Rightarrow> u32 option" where
  "K_n h comm =
     (case k_n_map h comm of
        None \<Rightarrow> None
      | Some i \<Rightarrow> if i < length (k_n_storage h) then Some (k_n_storage h ! i) else None)"

text \<open>The process a call ends in, whatever its outcome.\<close>

fun end_state :: "(int \<times> buffer \<times> process) outcome \<Rightarrow> process" where
  "end_state (Return (ret, rb, p)) = p"
| "end_state (AssertFail q) = q"
| "end_state (Fault q) = q"
| "end_state (Throw q) = q"

text \<open>How a call ends; \<open>Hangs\<close> is the call that does not return.\<close>

datatype ending = Returns | Asserts | Faults | Throws | Hangs

fun ending_of :: "'a outcome option \<Rightarrow> ending" where
  "ending_of (Some (Return x)) = Returns"
| "ending_of (Some (AssertFail q)) = Asserts"
| "ending_of (Some (Fault q)) = Faults"
| "ending_of (Some (Throw q)) = Throws"
| "ending_of None = Hangs"

text \<open>The events a call added to the trace.\<close>

definition new_events :: "process \<Rightarrow> process \<Rightarrow> event list" where
  "new_events p p' = drop (length (trace p)) (trace p')"

text \<open>The number of free slabs of the pool.\<close>

definition free_count :: "process \<Rightarrow> nat" where
  "free_count p = length (free_slabs (sbuf_mpool (hear p)))"

text \<open>The byte length of a slab of the pool.\<close>

definition slab_len :: "process \<Rightarrow> int" where
  "slab_len p = int (mpool_sbuf_len (sbuf_mpool (hear p)))"

fun is_update :: "event \<Rightarrow> bool" where
  "is_update (Ev_update_k_n c) = True"
| "is_update _ = False"

fun is_acquire :: "event \<Rightarrow> bool" where
  "is_acquire (Ev_acquire b) = True"
| "is_acquire _ = False"

fun is_shadow :: "event \<Rightarrow> bool" where
  "is_shadow (Ev_PMPI_Allreduce y n d opr c r) = True"
| "is_shadow (Ev_PMPI_Iallreduce y off n d opr c r) = True"
| "is_shadow _ = False"

text \<open>The nonce an encrypt event was called with.\<close>

fun mask_nonce :: "event \<Rightarrow> u32 option" where
  "mask_nonce (Ev_encrypt d opr n kn) = Some kn"
| "mask_nonce _ = None"

text \<open>The return code of a shadow all-reduce.\<close>

fun shadow_code :: "event \<Rightarrow> int option" where
  "shadow_code (Ev_PMPI_Allreduce y n d opr c r) = Some r"
| "shadow_code (Ev_PMPI_Iallreduce y off n d opr c r) = Some r"
| "shadow_code _ = None"

subsection \<open>The naive integer-sum engine\<close>

text \<open>
  Modelled from the spec: \<^verbatim>\<open>encryption::encrypt_int_sum_naive\<close> and
  \<^verbatim>\<open>encryption::decrypt_int_sum_naive\<close> (\<^verbatim>\<open>encrypt.hpp\<close> is not among the sources).
  The mask of rank \<open>r\<close> at element \<open>j\<close> is \<open>prf (K_s[r] XOR (K_n + j))\<close>; every rank but
  the last adds its mask, the last rank subtracts the sum of the masks of all the others;
  decryption leaves the buffer as it is.  The function \<open>prf\<close> is a parameter.
\<close>

definition mask :: "(u32 \<Rightarrow> u32) \<Rightarrow> u32 list \<Rightarrow> u32 \<Rightarrow> nat \<Rightarrow> nat \<Rightarrow> u32" where
  "mask prf ks kn r j = prf ((ks ! r) XOR (kn + word_of_nat j))"

definition encrypt_int_sum_naive ::
  "(u32 \<Rightarrow> u32) \<Rightarrow> buffer \<Rightarrow> int \<Rightarrow> int \<Rightarrow> u32 list \<Rightarrow> u32 \<Rightarrow> bool \<Rightarrow> buffer" where
  "encrypt_int_sum_naive prf src count rank ks kn is_last =
     map (\<lambda>j. if is_last
               then src ! j - (\<Sum>r \<leftarrow> [0 ..< length ks - 1]. mask prf ks kn r j)
               else src ! j + mask prf ks kn (nat rank) j)
         [0 ..< nat count]"

definition decrypt_int_sum_naive :: "buffer \<Rightarrow> int \<Rightarrow> u32 list \<Rightarrow> u32 \<Rightarrow> buffer" where
  "decrypt_int_sum_naive buf count ks kn = buf"

subsection \<open>The ranks of a communicator together\<close>

text \<open>
  The library's all-reduce with \<^verbatim>\<open>MPI_SUM\<close> on \<^verbatim>\<open>MPI_INT\<close>, as the library computes it on
  the buffers the ranks hand in: element \<open>j\<close> of the result is the sum of the elements \<open>j\<close>
  of all send buffers, in 32-bit arithmetic.
\<close>

definition native_sum :: "buffer list \<Rightarrow> nat \<Rightarrow> buffer" where
  "native_sum bufs cnt = map (\<lambda>j. sum_list (map (\<lambda>b. b ! j) bufs)) [0 ..< cnt]"

text \<open>
  What a rank hands to the library is read off its trace: \<open>sent_at es off\<close> is the send
  buffer of the shadow all-reduce in \<open>es\<close> whose receive pointer is at byte offset \<open>off\<close>
  of the receive buffer (0 for the blocking call).
\<close>

fun shadow_off :: "event \<Rightarrow> int option" where
  "shadow_off (Ev_PMPI_Allreduce y n d opr c r) = Some 0"
| "shadow_off (Ev_PMPI_Iallreduce y off n d opr c r) = Some off"
| "shadow_off _ = None"



text \<open>
  A world is one call of \<open>MPI_Allreduce\<close> with int and sum entered by every rank of a
  communicator: the build, and per rank the process, the send and the receive buffer.
  What a rank sends does not depend on what the library delivers to it as long as the
  library reports success, so the blocks of rank \<open>q\<close> on the wire are taken from the
  trace of its call against \<open>probe_mpl\<close>, a library that reports success and delivers
  zeros.  \<open>world_mpl W r\<close> is the library as rank \<open>r\<close> meets it: each shadow all-reduce
  succeeds and delivers the \<open>native_sum\<close> of the block this rank passes in and the blocks
  the other ranks put on the wire at the same offset.
\<close>

record world =
  w_build :: build
  w_junk :: indeterminate
  w_size :: nat
  w_proc :: "nat \<Rightarrow> process"
  w_send :: "nat \<Rightarrow> buffer"
  w_recv :: "nat \<Rightarrow> buffer"
  w_count :: int
  w_comm :: MPI_Comm




subsection \<open>Invariants of a call\<close>

text \<open>
  What the proofs below carry through a call.  \<open>post I X A\<close> sorts the outcomes of a part
  of the loop body: \<open>I\<close> holds of the locals when control goes on, \<open>X ret\<close> when it leaves
  by \<^verbatim>\<open>goto cleanup\<close>, \<open>A\<close> of the process when the call ends there.  \<open>track E comm n S p0 q\<close>
  says that \<open>q\<close> still stores the nonce of \<open>comm\<close> at index \<open>n\<close> of the nonce vector
  \<open>S\<close>, and that every event added since \<open>p0\<close> satisfies \<open>E\<close> and, when it is a call of
  the mask engine, was made with the nonce \<open>S ! n\<close>.  \<open>holding\<close> and \<open>holding2\<close> count
  the scratch buffers the call holds (one, or the current and the next one) against the
  pool and the heap of the process \<open>p0\<close> at the start.
\<close>

definition post :: "(locals \<Rightarrow> bool) \<Rightarrow> (int \<Rightarrow> locals \<Rightarrow> bool) \<Rightarrow> (process \<Rightarrow> bool)
     \<Rightarrow> (int option \<times> locals) outcome \<Rightarrow> bool" where
  "post I X A out =
     (case out of
        Return (None, v) \<Rightarrow> I v
      | Return (Some r, v) \<Rightarrow> X r v
      | AssertFail q \<Rightarrow> A q
      | Fault q \<Rightarrow> A q
      | Throw q \<Rightarrow> A q)"

definition track :: "(event \<Rightarrow> bool) \<Rightarrow> MPI_Comm \<Rightarrow> nat \<Rightarrow> u32 list \<Rightarrow> process \<Rightarrow> process \<Rightarrow> bool" where
  "track E comm n S p0 q \<longleftrightarrow>
     k_n_map (hear q) comm = Some n \<and> k_n_storage (hear q) = S \<and> n < length S \<and>
     (\<exists>es. trace q = trace p0 @ es \<and>
        (\<forall>e \<in> set es. E e \<and> (mask_nonce e = None \<or> mask_nonce e = Some (S ! n))))"

definition plain :: "(event \<Rightarrow> bool) \<Rightarrow> bool" where
  "plain E \<longleftrightarrow> (\<forall>b. E (Ev_acquire b)) \<and> (\<forall>b. E (Ev_release b)) \<and>
     (\<forall>d opr n kn. E (Ev_encrypt d opr n kn)) \<and> (\<forall>d opr n. E (Ev_decrypt d opr n)) \<and> E Ev_PMPI_Wait"

abbreviation tr :: "(event \<Rightarrow> bool) \<Rightarrow> MPI_Comm \<Rightarrow> nat \<Rightarrow> u32 list \<Rightarrow> process \<Rightarrow> locals \<Rightarrow> bool" where
  "tr E comm n S p0 v \<equiv> track E comm n S p0 (proc v)"

definition holding :: "build \<Rightarrow> process \<Rightarrow> nat option \<Rightarrow> process \<Rightarrow> bool" where
  "holding bld p0 buf p \<longleftrightarrow>
     (\<exists>b. buf = Some b \<and>
        (if USE_MPOOL bld
         then free_count p + 1 = free_count p0 \<and> heap_live p = heap_live p0
         else free_count p = free_count p0 \<and> heap_live p = b # heap_live p0 \<and> b < heap_next p))"

definition holding2 :: "build \<Rightarrow> process \<Rightarrow> nat option \<Rightarrow> nat option \<Rightarrow> process \<Rightarrow> bool" where
  "holding2 bld p0 buf nbuf p \<longleftrightarrow>
     (\<exists>b nb. buf = Some b \<and> nbuf = Some nb \<and>
        (if USE_MPOOL bld
         then free_count p + 2 = free_count p0 \<and> heap_live p = heap_live p0
         else free_count p = free_count p0 \<and> heap_live p = nb # b # heap_live p0 \<and> nb \<noteq> b
              \<and> nb < heap_next p))"

definition conserved :: "process \<Rightarrow> process \<Rightarrow> bool" where
  "conserved p0 p \<longleftrightarrow> free_count p = free_count p0 \<and> heap_live p = heap_live p0"

definition same_scratch :: "process \<Rightarrow> process \<Rightarrow> bool" where
  "same_scratch p p' \<longleftrightarrow>
     free_count p' = free_count p \<and> heap_live p' = heap_live p \<and> heap_next p \<le> heap_next p'"

definition took :: "build \<Rightarrow> nat \<Rightarrow> process \<Rightarrow> process \<Rightarrow> bool" where
  "took bld b p p' \<longleftrightarrow>
     (if USE_MPOOL bld
      then free_count p' + 1 = free_count p \<and> heap_live p' = heap_live p \<and> heap_next p' = heap_next p
      else free_count p' = free_count p \<and> heap_live p' = b # heap_live p \<and> b = heap_next p
           \<and> heap_next p' = Suc b)"

abbreviation hold :: "build \<Rightarrow> process \<Rightarrow> locals \<Rightarrow> bool" where
  "hold bld p0 v \<equiv> holding bld p0 (encr_sendbuf v) (proc v)"

definition hold_next :: "build \<Rightarrow> process \<Rightarrow> locals \<Rightarrow> bool" where
  "hold_next bld p0 v \<longleftrightarrow>
     (if total_count v \<noteq> 0 then holding2 bld p0 (encr_sendbuf v) (encr_sendbuf_next v) (proc v)
      else holding bld p0 (encr_sendbuf v) (proc v))"

definition calm :: "event \<Rightarrow> bool" where
  "calm e \<longleftrightarrow> shadow_code e = None \<or> shadow_code e = Some MPI_SUCCESS"

definition calm_but :: "int \<Rightarrow> event \<Rightarrow> bool" where
  "calm_but r e \<longleftrightarrow> calm e \<or> shadow_code e = Some r"

text \<open>
  What the proof of C5 keeps of an outcome: either every shadow call so far returned
  \<open>MPI_SUCCESS\<close>, or the call returns the one other code and holds no scratch buffer.
\<close>

definition shadow_post :: "MPI_Comm \<Rightarrow> nat \<Rightarrow> u32 list \<Rightarrow> process \<Rightarrow> (int \<times> buffer \<times> process) outcome \<Rightarrow> bool" where
  "shadow_post comm n S p0 out =
     (case out of
        Return (r, rb, p') \<Rightarrow>
          track calm comm n S p0 p' \<or> (track (calm_but r) comm n S p0 p' \<and> conserved p0 p')
      | AssertFail q \<Rightarrow> track calm comm n S p0 q
      | Fault q \<Rightarrow> track calm comm n S p0 q
      | Throw q \<Rightarrow> track calm comm n S p0 q)"

text \<open>
  For the integer sum: \<open>keyed\<close> says that the store holds the shared keys \<open>ks\<close> and the
  nonce \<open>kn\<close> for the communicator and that the engine is the naive one over \<open>prf\<close>;
  \<open>enc\<close> is the masked block of \<open>cnt\<close> elements that rank \<open>r\<close> of \<open>N\<close> makes of its
  send buffer from element \<open>c\<close> on.  \<open>silent\<close> is an extension of the trace without shadow
  calls, \<open>wired\<close> says that the shadow calls since \<open>p0\<close> carry the blocks \<open>E\<close> of all
  block starts below \<open>t\<close>, \<open>feeds\<close> that the library answers each block of the pipeline
  with the matching part of \<open>R\<close>, and \<open>pipe_inv\<close> is the invariant of the loop when \<open>c\<close>
  elements are done.  \<open>roomy bld cnt p\<close> says that a block of \<open>cnt\<close> elements of four
  bytes has a size in \<^verbatim>\<open>int\<close> and, with the pool, is no longer than a slab.
\<close>

definition roomy :: "build \<Rightarrow> int \<Rightarrow> process \<Rightarrow> bool" where
  "roomy bld cnt p \<longleftrightarrow> 4 * cnt < 2 ^ 31 \<and> (USE_MPOOL bld \<longrightarrow> 4 * cnt \<le> slab_len p)"


definition enc :: "(u32 \<Rightarrow> u32) \<Rightarrow> u32 list \<Rightarrow> u32 \<Rightarrow> nat \<Rightarrow> nat \<Rightarrow> buffer \<Rightarrow> int \<Rightarrow> int \<Rightarrow> buffer" where
  "enc prf ks kn N r x c cnt =
     encrypt_int_sum_naive prf (drop (nat c) x) cnt (int r) ks kn (int r = int N - 1)"

definition silent :: "process \<Rightarrow> process \<Rightarrow> bool" where
  "silent p p' \<longleftrightarrow> (\<exists>es. trace p' = trace p @ es \<and> (\<forall>e \<in> set es. shadow_off e = None))"






subsection \<open>A concrete process\<close>

text \<open>
  A process for evaluating the statements below: communicator 0 with two ranks is
  registered, the pool has its default four slabs of 8 MiB, and the integer-sum engine is the
  naive one over a linear congruential \<open>prf\<close>.  The product and float engines copy their
  input.  The library \<open>example_mpl r code\<close> is rank \<open>r\<close> of two; its all-reduce
  returns \<open>code\<close> and delivers the send buffer.
\<close>

definition example_prng :: "u32 \<Rightarrow> u32" where
  "example_prng x = x * 1664525 + 1013904223"

definition example_hear :: HearState where
  "example_hear =
     \<lparr>k_s_storage = [[7, 9]], k_s_map = [0 \<mapsto> 0],
      k_n_storage = [5], k_n_map = [0 \<mapsto> 0],
      encrypt_block_int_sum = encrypt_int_sum_naive example_prng,
      decrypt_block_int_sum = decrypt_int_sum_naive,
      encrypt_block_int_prod = (\<lambda>src count rank ks kn is_last. take (nat count) src),
      decrypt_block_int_prod = (\<lambda>buf count ks kn. buf),
      encrypt_block_float_sum = (\<lambda>src count rank ks kn. take (nat count) src),
      decrypt_block_float_sum = (\<lambda>buf count ks kn. buf),
      prng = example_prng,
      sbuf_mpool = \<lparr>free_slabs = [0, 1, 2, 3], mpool_sbuf_len = 8388608\<rparr>\<rparr>"

definition example_process :: process where
  "example_process =
     \<lparr>hear = example_hear, heap_live = [], heap_next = 0, sbuf_mem = (\<lambda>b. []),
      noise_src = (\<lambda>i. word_of_nat (17 * i + 3)), noise_pos = 0, trace = []\<rparr>"

definition example_mpl :: "int \<Rightarrow> int \<Rightarrow> MPL" where
  "example_mpl r code =
     \<lparr>MPI_Comm_size = (\<lambda>comm. 2), MPI_Comm_rank = (\<lambda>comm. r),
      PMPI_Allreduce = (\<lambda>send recv count datatype op comm. (code, take (nat count) send)),
      PMPI_Iallreduce = (\<lambda>send off count datatype op comm. (code, take (nat count) send)),
      PMPI_Allgather = (\<lambda>comm. (code, (\<lambda>j. word_of_nat (100 + j)))),
      PMPI_Bcast = (\<lambda>comm. (code, 77))\<rparr>"

definition example_junk :: indeterminate where
  "example_junk =
     \<lparr>junk_prev_count = -7, junk_next_count = 12345, junk_sendbuf_next = Some 99, junk_req = [1]\<rparr>"

text \<open>
  Four builds: the pool without pipelining, the pool with pipelining in blocks of two
  elements, the heap with the same pipelining, and the heap without pipelining.
  \<open>exhausted_process\<close> is the concrete process with every slab of its pool in use.
\<close>

definition example_build :: build where
  "example_build = \<lparr>USE_MPOOL = True, USE_PIPELINING = False, pipelining_block_size = 65536\<rparr>"

definition pipelined_build :: build where
  "pipelined_build = \<lparr>USE_MPOOL = True, USE_PIPELINING = True, pipelining_block_size = 2\<rparr>"

definition heap_build :: build where
  "heap_build = \<lparr>USE_MPOOL = False, USE_PIPELINING = True, pipelining_block_size = 2\<rparr>"

definition plain_heap_build :: build where
  "plain_heap_build = \<lparr>USE_MPOOL = False, USE_PIPELINING = False, pipelining_block_size = 65536\<rparr>"

definition exhausted_process :: process where
  "exhausted_process =
     example_process\<lparr>hear := example_hear\<lparr>sbuf_mpool := \<lparr>free_slabs = [], mpool_sbuf_len = 8388608\<rparr>\<rparr>\<rparr>"


text \<open>
  Two ranks with more elements than a scratch buffer takes: \<open>2 ^ 29\<close> elements each on the
  heap without pipelining (\<open>2 ^ 31\<close> bytes, one more than the largest \<^verbatim>\<open>int\<close>), and
  2097153 elements each on the pool without pipelining (four bytes more than a slab).
\<close>

definition huge_world :: world where
  "huge_world =
     \<lparr>w_build = plain_heap_build, w_junk = example_junk, w_size = 2,
      w_proc = (\<lambda>r. example_process),
      w_send = (\<lambda>r. replicate 536870912 1),
      w_recv = (\<lambda>r. replicate 536870912 0), w_count = 536870912, w_comm = 0\<rparr>"


section \<open>Reasoning about a call\<close>

subsection \<open>The loop of the pipelined path\<close>

lemma post_simps [simp]:
  "post I X A (Return (None, v)) = I v"
  "post I X A (Return (Some r, v)) = X r v"
  "post I X A (AssertFail q) = A q"
  "post I X A (Fault q) = A q"
  "post I X A (Throw q) = A q"
  by (simp_all add: post_def)

lemma post_then_do:
  assumes "post I' X A m" and "\<And>v. I' v \<Longrightarrow> post I X A (f v)"
  shows "post I X A (then_do m f)"
proof (cases m)
  case (Return x)
  obtain r v where x: "x = (r, v)" by (cases x)
  show ?thesis
  proof (cases r)
    case None
    with Return x assms(1) have "I' v" by simp
    from assms(2)[OF this] Return x None show ?thesis by (simp add: then_do_def)
  next
    case (Some a)
    with Return x assms(1) show ?thesis by (simp add: then_do_def)
  qed
next
  case (AssertFail q)
  with assms(1) show ?thesis by (simp add: then_do_def)
next
  case (Fault q)
  with assms(1) show ?thesis by (simp add: then_do_def)
next
  case (Throw q)
  with assms(1) show ?thesis by (simp add: then_do_def)
qed

lemma post_mono:
  assumes "post I X A out" and "\<And>v. I v \<Longrightarrow> I' v" and "\<And>r v. X r v \<Longrightarrow> X' r v" and "\<And>q. A q \<Longrightarrow> A' q"
  shows "post I' X' A' out"
proof (cases out)
  case (Return x)
  obtain r v where x: "x = (r, v)" by (cases x)
  show ?thesis using assms Return x by (cases r) simp_all
next
  case (AssertFail q)
  with assms show ?thesis by simp
next
  case (Fault q)
  with assms show ?thesis by simp
next
  case (Throw q)
  with assms show ?thesis by simp
qed

lemma post_loop_aux:
  assumes "pipeline_loop bld mpl sb dt opr comm ds v = Some out"
  shows "(\<forall>u. I u \<and> total_count u \<noteq> 0 \<longrightarrow> post I X A (pipeline_step bld mpl sb dt opr comm ds u))
   \<longrightarrow> I v \<longrightarrow> post (\<lambda>u. I u \<and> total_count u = 0) X A out"
proof (rule pipeline_loop.raw_induct[where P="\<lambda>bld mpl sb dt opr comm ds v out.
    (\<forall>u. I u \<and> total_count u \<noteq> 0 \<longrightarrow> post I X A (pipeline_step bld mpl sb dt opr comm ds u))
   \<longrightarrow> I v \<longrightarrow> post (\<lambda>u. I u \<and> total_count u = 0) X A out", OF _ assms], goal_cases)
  case (1 loop bld mpl sb dt opr comm ds v out)
  show ?case
  proof (intro impI)
    assume step: "\<forall>u. I u \<and> total_count u \<noteq> 0 \<longrightarrow> post I X A (pipeline_step bld mpl sb dt opr comm ds u)"
      and iv: "I v"
    show "post (\<lambda>u. I u \<and> total_count u = 0) X A out"
    proof (cases "total_count v = 0")
      case True
      with 1(2) have "out = Return (None, v)" by simp
      with True iv show ?thesis by simp
    next
      case False
      with step iv have ps: "post I X A (pipeline_step bld mpl sb dt opr comm ds v)" by simp
      show ?thesis
      proof (cases "pipeline_step bld mpl sb dt opr comm ds v")
        case (Return x)
        obtain r v' where x: "x = (r, v')" by (cases x)
        show ?thesis
        proof (cases r)
          case None
          with Return x False 1(2) have rec: "loop bld mpl sb dt opr comm ds v' = Some out" by simp
          from ps Return x None have iv': "I v'" by simp
          from mp [OF mp [OF 1(1)[OF rec] step] iv'] show ?thesis .
        next
          case (Some ret)
          with Return x False 1(2) have "out = Return (Some ret, v')" by simp
          with ps Return x Some show ?thesis by simp
        qed
      next
        case (AssertFail q)
        with False 1(2) have "out = AssertFail q" by simp
        with ps AssertFail show ?thesis by simp
      next
        case (Fault q)
        with False 1(2) have "out = Fault q" by simp
        with ps Fault show ?thesis by simp
      next
        case (Throw q)
        with False 1(2) have "out = Throw q" by simp
        with ps Throw show ?thesis by simp
      qed
    qed
  qed
qed

lemma post_loop:
  assumes "pipeline_loop bld mpl sb dt opr comm ds v = Some out" and "I v"
    and "\<And>u. I u \<Longrightarrow> total_count u \<noteq> 0 \<Longrightarrow> post I X A (pipeline_step bld mpl sb dt opr comm ds u)"
  shows "post (\<lambda>u. I u \<and> total_count u = 0) X A out"
proof -
  have "\<forall>u. I u \<and> total_count u \<noteq> 0 \<longrightarrow> post I X A (pipeline_step bld mpl sb dt opr comm ds u)"
    by (intro allI impI, elim conjE, rule assms(3))
  from mp [OF mp [OF post_loop_aux[OF assms(1), of I X A] this] assms(2)]
  show ?thesis .
qed

lemma track_emit:
  "track E comm n S p0 p \<Longrightarrow> E e \<Longrightarrow> mask_nonce e = None \<or> mask_nonce e = Some (S ! n) \<Longrightarrow>
   track E comm n S p0 (emit e p)"
  by (auto simp: track_def emit_def)

lemma track_weaken:
  "track E comm n S p0 p \<Longrightarrow> (\<And>e. E e \<Longrightarrow> E' e) \<Longrightarrow> track E' comm n S p0 p"
  by (auto simp: track_def)

lemma track_sbuf_alloc:
  assumes "track E comm n S p0 p" and "plain E"
  shows "case sbuf_alloc bld p len of Return (b, p') \<Rightarrow> track E comm n S p0 p'
           | AssertFail q \<Rightarrow> track E comm n S p0 q | Fault q \<Rightarrow> track E comm n S p0 q
           | Throw q \<Rightarrow> track E comm n S p0 q"
  using assms
  by (auto simp: track_def plain_def sbuf_alloc_def emit_def acquire_buf_def Let_def
           split: if_splits list.splits prod.splits)

lemma track_sbuf_free:
  "track E comm n S p0 p \<Longrightarrow> plain E \<Longrightarrow> track E comm n S p0 (sbuf_free bld p b)"
  by (auto simp: track_def plain_def sbuf_free_def emit_def release_buf_def)

lemma track_release_memory:
  assumes "track E comm n S p0 p" and "plain E"
  shows "case release_memory bld p buf of Return p' \<Rightarrow> track E comm n S p0 p'
           | AssertFail q \<Rightarrow> track E comm n S p0 q | Fault q \<Rightarrow> track E comm n S p0 q
           | Throw q \<Rightarrow> track E comm n S p0 q"
  using assms by (auto simp: release_memory_def track_sbuf_free split: option.splits)

lemma lookup_keys_stable:
  "k_n_map h comm = Some n \<Longrightarrow> n < length (k_n_storage h) \<Longrightarrow>
   lookup_keys h comm = Some (ks, kn, h') \<Longrightarrow>
   kn = k_n_storage h ! n \<and> k_n_map h' comm = Some n \<and> k_n_storage h' = k_n_storage h
     \<and> sbuf_mpool h' = sbuf_mpool h"
  by (auto simp: lookup_keys_def umap_index_def Let_def split: option.splits if_splits prod.splits)

lemma track_encrypt_sendbuf:
  assumes q0: "track E comm n S p0 p" and pl: "plain E"
  shows "case encrypt_sendbuf bld mpl p sb cnt dt opr comm of Return (b, p') \<Rightarrow> track E comm n S p0 p'
           | AssertFail q \<Rightarrow> track E comm n S p0 q | Fault q \<Rightarrow> track E comm n S p0 q
           | Throw q \<Rightarrow> track E comm n S p0 q"
proof -
  let ?len = "int32 (cnt * MPI_Type_size dt)"
  note al = track_sbuf_alloc[OF q0 pl, where bld=bld and len="?len"]
  show ?thesis
  proof (cases "sbuf_alloc bld p ?len")
    case (AssertFail q)
    with al show ?thesis by (simp add: encrypt_sendbuf_def Let_def)
  next
    case (Fault q)
    with al show ?thesis by (simp add: encrypt_sendbuf_def Let_def)
  next
    case (Throw q)
    with al show ?thesis by (simp add: encrypt_sendbuf_def Let_def)
  next
    case (Return x)
    obtain b1 p1 where x: "x = (b1, p1)" by (cases x)
    from al Return x have q1: "track E comm n S p0 p1" by simp
    then have st: "k_n_map (hear p1) comm = Some n" "n < length (k_n_storage (hear p1))"
         "k_n_storage (hear p1) = S"
      by (auto simp: track_def)
    have f: "\<And>b. track E comm n S p0 (sbuf_free bld p1 b)" using q1 pl by (rule track_sbuf_free)
    have k: "\<And>ks kn h m. lookup_keys (hear p1) comm = Some (ks, kn, h) \<Longrightarrow>
            track E comm n S p0 (emit (Ev_encrypt dt opr cnt kn) (p1\<lparr>hear := h, sbuf_mem := m\<rparr>))"
    proof -
      fix ks kn h m assume l: "lookup_keys (hear p1) comm = Some (ks, kn, h)"
      from lookup_keys_stable[OF st(1) st(2) l] st(3) q1 pl
      show "track E comm n S p0 (emit (Ev_encrypt dt opr cnt kn) (p1\<lparr>hear := h, sbuf_mem := m\<rparr>))"
        by (auto simp: track_def emit_def plain_def)
    qed
    have o: "\<And>ks kn h. lookup_keys (hear p1) comm = Some (ks, kn, h) \<Longrightarrow>
            track E comm n S p0 (p1\<lparr>hear := h\<rparr>)"
    proof -
      fix ks kn h assume l: "lookup_keys (hear p1) comm = Some (ks, kn, h)"
      from lookup_keys_stable[OF st(1) st(2) l] st(3) q1
      show "track E comm n S p0 (p1\<lparr>hear := h\<rparr>)"
        by (auto simp: track_def)
    qed
    show ?thesis
      using q1 f k o Return x
      by (auto simp: encrypt_sendbuf_def Let_def split: option.splits if_splits)
  qed
qed

lemma track_decrypt_recvbuf:
  assumes q0: "track E comm n S p0 p" and pl: "plain E"
  shows "case decrypt_recvbuf p rb off cnt dt opr comm of Return (r, rb', p') \<Rightarrow> track E comm n S p0 p'
           | AssertFail q \<Rightarrow> track E comm n S p0 q | Fault q \<Rightarrow> track E comm n S p0 q
           | Throw q \<Rightarrow> track E comm n S p0 q"
proof -
  from q0 have st: "k_n_map (hear p) comm = Some n" "n < length (k_n_storage (hear p))"
       "k_n_storage (hear p) = S"
    by (auto simp: track_def)
  have k: "\<And>ks kn h. lookup_keys (hear p) comm = Some (ks, kn, h) \<Longrightarrow>
          track E comm n S p0 (emit (Ev_decrypt dt opr cnt) (p\<lparr>hear := h\<rparr>))"
  proof -
    fix ks kn h assume l: "lookup_keys (hear p) comm = Some (ks, kn, h)"
    from lookup_keys_stable[OF st(1) st(2) l] st(3) q0 pl
    show "track E comm n S p0 (emit (Ev_decrypt dt opr cnt) (p\<lparr>hear := h\<rparr>))"
      by (auto simp: track_def emit_def plain_def)
  qed
  show ?thesis
    using q0 k
    by (auto simp: decrypt_recvbuf_def Let_def split: option.splits if_splits)
qed

lemma track_pipeline_issue:
  assumes "track E comm n S p0 (proc v)"
    and "\<And>y off cnt. E (Ev_PMPI_Iallreduce y off cnt dt opr comm MPI_SUCCESS)"
    and "\<And>y off cnt r. r \<noteq> MPI_SUCCESS \<Longrightarrow> E' r (Ev_PMPI_Iallreduce y off cnt dt opr comm r)"
    and "\<And>r e. E e \<Longrightarrow> E' r e"
  shows "post (tr E comm n S p0) (\<lambda>r. tr (E' r) comm n S p0) (track E comm n S p0)
           (pipeline_issue mpl dt opr comm v)"
proof -
  obtain ret blk where c: "PMPI_Iallreduce mpl (sbuf_content (proc v) (encr_sendbuf v))
      (cur_offset v) (cur_count v) dt opr comm = (ret, blk)"
    by (cases "PMPI_Iallreduce mpl (sbuf_content (proc v) (encr_sendbuf v))
      (cur_offset v) (cur_count v) dt opr comm")
  show ?thesis
  proof (cases "ret = MPI_SUCCESS")
    case True
    with c assms(1,2) show ?thesis
      by (simp add: pipeline_issue_def Let_def track_emit)
  next
    case False
    from assms(1,4) have "track (E' ret) comm n S p0 (proc v)" by (rule track_weaken)
    with False c assms(3) show ?thesis
      by (simp add: pipeline_issue_def Let_def track_emit)
  qed
qed

lemma track_pipeline_prev:
  assumes "track E comm n S p0 (proc v)" and "plain E"
  shows "post (tr E comm n S p0) (\<lambda>r. tr E comm n S p0) (track E comm n S p0)
           (pipeline_prev dt opr comm v)"
  using track_decrypt_recvbuf[OF assms, where rb="rbuf v" and off="prev_offset v" and cnt="prev_count v" and dt=dt and opr=opr] assms(1)
  by (auto simp: pipeline_prev_def Let_def split: outcome.splits prod.splits if_splits)

lemma track_pipeline_next:
  assumes "track E comm n S p0 (proc v)" and "plain E"
  shows "post (tr E comm n S p0) (\<lambda>r. tr E comm n S p0) (track E comm n S p0)
           (pipeline_next bld mpl sb dt opr comm ds v)"
proof -
  let ?v = "v\<lparr>total_count := int32 (total_count v - cur_count v)\<rparr>"
  let ?v1 = "?v\<lparr>next_offset := int32 (next_offset ?v + int32 (cur_count ?v * ds))\<rparr>"
  let ?v2 = "?v1\<lparr>next_count := (if total_count ?v1 < pipelining_block_size bld
                                        then total_count ?v1 else pipelining_block_size bld)\<rparr>"
  have "track E comm n S p0 (proc ?v2)" using assms(1) by simp
  from track_encrypt_sendbuf[OF this assms(2), where bld=bld and mpl=mpl
      and sb="mem_from sb (next_offset ?v2) ds" and cnt="next_count ?v2" and dt=dt and opr=opr]
  show ?thesis using assms(1)
    by (auto simp: pipeline_next_def Let_def split: outcome.splits prod.splits if_splits)
qed

lemma track_pipeline_rotate:
  assumes "track E comm n S p0 (proc v)" and "plain E"
  shows "post (tr E comm n S p0) (\<lambda>r. tr E comm n S p0) (track E comm n S p0)
           (pipeline_rotate bld ds v)"
proof -
  have w: "E Ev_PMPI_Wait" using assms(2) by (simp add: plain_def)
  have "track E comm n S p0 (emit Ev_PMPI_Wait (proc v))"
    using assms(1) w by (simp add: track_emit)
  from track_release_memory[OF this assms(2), where bld=bld and buf="encr_sendbuf v"]
  show ?thesis
    by (auto simp: pipeline_rotate_def Let_def split: outcome.splits)
qed

lemma track_pipeline_step:
  assumes "track E comm n S p0 (proc v)" and "plain E"
    and "\<And>y off cnt. E (Ev_PMPI_Iallreduce y off cnt dt opr comm MPI_SUCCESS)"
    and "\<And>y off cnt r. r \<noteq> MPI_SUCCESS \<Longrightarrow> E' r (Ev_PMPI_Iallreduce y off cnt dt opr comm r)"
    and "\<And>r e. E e \<Longrightarrow> E' r e"
  shows "post (tr E comm n S p0) (\<lambda>r. tr (E' r) comm n S p0) (track E comm n S p0)
           (pipeline_step bld mpl sb dt opr comm ds v)"
  unfolding pipeline_step_def
proof -
  have iss: "post (tr E comm n S p0) (\<lambda>r. tr (E' r) comm n S p0) (track E comm n S p0)
           (pipeline_issue mpl dt opr comm v)"
    by (rule track_pipeline_issue[where E=E and E'=E']) (fact assms(1), rule assms(3), erule assms(4), erule assms(5))
  show "post (tr E comm n S p0) (\<lambda>r. tr (E' r) comm n S p0) (track E comm n S p0)
     (then_do (pipeline_issue mpl dt opr comm v)
       (\<lambda>v1. then_do (pipeline_prev dt opr comm v1)
              (\<lambda>v2. then_do (pipeline_next bld mpl sb dt opr comm ds v2) (pipeline_rotate bld ds))))"
  proof (rule post_then_do[OF iss])
    fix v1 assume t1: "tr E comm n S p0 v1"
    have w: "\<And>r v. tr E comm n S p0 v \<Longrightarrow> tr (E' r) comm n S p0 v"
      by (erule track_weaken) (rule assms(5))
    have prev: "post (tr E comm n S p0) (\<lambda>r. tr (E' r) comm n S p0) (track E comm n S p0)
           (pipeline_prev dt opr comm v1)"
      by (rule post_mono[OF track_pipeline_prev[OF t1 assms(2)]]) (assumption, erule w, assumption)
    show "post (tr E comm n S p0) (\<lambda>r. tr (E' r) comm n S p0) (track E comm n S p0)
        (then_do (pipeline_prev dt opr comm v1)
          (\<lambda>v2. then_do (pipeline_next bld mpl sb dt opr comm ds v2) (pipeline_rotate bld ds)))"
    proof (rule post_then_do[OF prev])
      fix v2 assume t2: "tr E comm n S p0 v2"
      have nxt: "post (tr E comm n S p0) (\<lambda>r. tr (E' r) comm n S p0) (track E comm n S p0)
           (pipeline_next bld mpl sb dt opr comm ds v2)"
        by (rule post_mono[OF track_pipeline_next[OF t2 assms(2)]]) (assumption, erule w, assumption)
      show "post (tr E comm n S p0) (\<lambda>r. tr (E' r) comm n S p0) (track E comm n S p0)
          (then_do (pipeline_next bld mpl sb dt opr comm ds v2) (pipeline_rotate bld ds))"
      proof (rule post_then_do[OF nxt])
        fix v3 assume t3: "tr E comm n S p0 v3"
        show "post (tr E comm n S p0) (\<lambda>r. tr (E' r) comm n S p0) (track E comm n S p0)
           (pipeline_rotate bld ds v3)"
          by (rule post_mono[OF track_pipeline_rotate[OF t3 assms(2)]]) (assumption, erule w, assumption)
      qed
    qed
  qed
qed

lemma lookup_keys_pool:
  "lookup_keys h comm = Some (ks, kn, h') \<Longrightarrow> sbuf_mpool h' = sbuf_mpool h"
  by (auto simp: lookup_keys_def Let_def split: prod.splits if_splits)

lemma same_scratch_emit [simp]: "same_scratch p (emit e p)"
  by (simp add: same_scratch_def emit_def free_count_def)

lemma scratch_emit [simp]:
  "free_count (emit e p) = free_count p" "heap_live (emit e p) = heap_live p"
  "heap_next (emit e p) = heap_next p"
  by (simp_all add: emit_def free_count_def)

lemma sbuf_free_scratch:
  "free_count (sbuf_free bld p b) = (if USE_MPOOL bld then free_count p + 1 else free_count p)"
  "heap_live (sbuf_free bld p b) = (if USE_MPOOL bld then heap_live p else remove1 b (heap_live p))"
  "heap_next (sbuf_free bld p b) = heap_next p"
  by (simp_all add: sbuf_free_def emit_def free_count_def release_buf_def)

lemma sbuf_alloc_scratch:
  "sbuf_alloc bld p len = Return (None, p') \<Longrightarrow> same_scratch p p'"
  "sbuf_alloc bld p len = Return (Some b, p') \<Longrightarrow> took bld b p p'"
  by (auto simp: sbuf_alloc_def same_scratch_def took_def emit_def free_count_def acquire_buf_def
           Let_def split: if_splits list.splits)

lemma encrypt_sendbuf_scratch:
  "case encrypt_sendbuf bld mpl p sb cnt dt opr comm of
     Return (None, p') \<Rightarrow> same_scratch p p'
   | Return (Some b, p') \<Rightarrow> took bld b p p'
   | AssertFail q \<Rightarrow> True
   | Fault q \<Rightarrow> True
   | Throw q \<Rightarrow> True"
proof -
  let ?len = "int32 (cnt * MPI_Type_size dt)"
  show ?thesis
  proof (cases "sbuf_alloc bld p ?len")
    case (Return x)
    obtain b1 p1 where x: "x = (b1, p1)" by (cases x)
    have k: "\<And>ks kn h e m b. lookup_keys (hear p1) comm = Some (ks, kn, h) \<Longrightarrow> took bld b p p1 \<Longrightarrow>
            took bld b p (emit e (p1\<lparr>hear := h, sbuf_mem := m\<rparr>))"
      by (auto simp: took_def emit_def free_count_def dest: lookup_keys_pool)
    have f: "\<And>b. took bld b p p1 \<Longrightarrow> same_scratch p (sbuf_free bld p1 b)"
      by (auto simp: took_def same_scratch_def sbuf_free_scratch)
    show ?thesis
      using sbuf_alloc_scratch[where bld=bld and p=p and len="?len"] Return x k f
      by (auto simp: encrypt_sendbuf_def Let_def split: option.splits if_splits)
  qed (simp_all add: encrypt_sendbuf_def Let_def)
qed

lemma decrypt_recvbuf_scratch:
  "decrypt_recvbuf p rb off cnt dt opr comm = Return (r, rb', p') \<Longrightarrow>
     free_count p' = free_count p \<and> heap_live p' = heap_live p \<and> heap_next p' = heap_next p"
  by (auto simp: decrypt_recvbuf_def Let_def emit_def free_count_def
           split: option.splits if_splits dest: lookup_keys_pool)

lemma hold_pipeline_issue:
  "hold bld p0 v \<Longrightarrow> post (hold bld p0) (\<lambda>r. hold bld p0) (\<lambda>q. True) (pipeline_issue mpl dt opr comm v)"
  by (auto simp: pipeline_issue_def Let_def holding_def split: prod.splits)

lemma hold_pipeline_prev:
  "hold bld p0 v \<Longrightarrow> post (hold bld p0) (\<lambda>r. hold bld p0) (\<lambda>q. True) (pipeline_prev dt opr comm v)"
  by (auto simp: pipeline_prev_def Let_def holding_def split: outcome.splits prod.splits
           dest!: decrypt_recvbuf_scratch)

lemma hold_pipeline_next:
  assumes "hold bld p0 v"
  shows "post (hold_next bld p0) (\<lambda>r. hold bld p0) (\<lambda>q. True) (pipeline_next bld mpl sb dt opr comm ds v)"
proof -
  let ?v = "v\<lparr>total_count := int32 (total_count v - cur_count v)\<rparr>"
  let ?v1 = "?v\<lparr>next_offset := int32 (next_offset ?v + int32 (cur_count ?v * ds))\<rparr>"
  let ?v2 = "?v1\<lparr>next_count := (if total_count ?v1 < pipelining_block_size bld
                                        then total_count ?v1 else pipelining_block_size bld)\<rparr>"
  from encrypt_sendbuf_scratch[where bld=bld and mpl=mpl and p="proc ?v2"
      and sb="mem_from sb (next_offset ?v2) ds" and cnt="next_count ?v2" and dt=dt and opr=opr and comm=comm]
  show ?thesis using assms
    by (auto simp: pipeline_next_def Let_def hold_next_def holding_def holding2_def took_def
          same_scratch_def split: outcome.splits prod.splits if_splits option.splits)
qed

lemma hold_pipeline_rotate:
  assumes "hold_next bld p0 v"
  shows "post (\<lambda>u. total_count u \<noteq> 0 \<longrightarrow> hold bld p0 u) (\<lambda>r. hold bld p0) (\<lambda>q. True)
           (pipeline_rotate bld ds v)"
  using assms
  by (auto simp: pipeline_rotate_def Let_def hold_next_def holding_def holding2_def
        release_memory_def sbuf_free_scratch split: outcome.splits option.splits if_splits)

lemma hold_pipeline_step:
  assumes "hold bld p0 v"
  shows "post (\<lambda>u. total_count u \<noteq> 0 \<longrightarrow> hold bld p0 u) (\<lambda>r. hold bld p0) (\<lambda>q. True)
           (pipeline_step bld mpl sb dt opr comm ds v)"
  unfolding pipeline_step_def
proof (rule post_then_do[OF hold_pipeline_issue[OF assms]])
  fix v1 assume h1: "hold bld p0 v1"
  show "post (\<lambda>u. total_count u \<noteq> 0 \<longrightarrow> hold bld p0 u) (\<lambda>r. hold bld p0) (\<lambda>q. True)
          (then_do (pipeline_prev dt opr comm v1)
             (\<lambda>v2. then_do (pipeline_next bld mpl sb dt opr comm ds v2) (pipeline_rotate bld ds)))"
  proof (rule post_then_do[OF hold_pipeline_prev[OF h1]])
    fix v2 assume h2: "hold bld p0 v2"
    show "post (\<lambda>u. total_count u \<noteq> 0 \<longrightarrow> hold bld p0 u) (\<lambda>r. hold bld p0) (\<lambda>q. True)
            (then_do (pipeline_next bld mpl sb dt opr comm ds v2) (pipeline_rotate bld ds))"
      by (rule post_then_do[OF hold_pipeline_next[OF h2]]) (rule hold_pipeline_rotate)
  qed
qed

lemma post_conj:
  assumes "post I1 X1 A1 out" and "post I2 X2 A2 out"
  shows "post (\<lambda>v. I1 v \<and> I2 v) (\<lambda>r v. X1 r v \<and> X2 r v) (\<lambda>q. A1 q \<and> A2 q) out"
proof (cases out)
  case (Return x)
  obtain r v where x: "x = (r, v)" by (cases x)
  show ?thesis using assms Return x by (cases r) simp_all
next
  case (AssertFail q)
  with assms show ?thesis by simp
next
  case (Fault q)
  with assms show ?thesis by simp
next
  case (Throw q)
  with assms show ?thesis by simp
qed

lemma plain_calm: "plain calm" "plain (calm_but r)"
  by (simp_all add: plain_def calm_def calm_but_def)

lemma plain_not_update: "plain (\<lambda>e. \<not> is_update e)"
  by (simp add: plain_def)

lemma update_k_n_Return:
  assumes "update_k_n p comm = Return p1"
  shows "\<exists>n. k_n_map (hear p1) comm = Some n \<and> n < length (k_n_storage (hear p1)) \<and>
           trace p1 = trace p @ [Ev_update_k_n comm] \<and>
           free_count p1 = free_count p \<and> heap_live p1 = heap_live p"
  using assms
  by (auto simp: update_k_n_def umap_index_def Let_def emit_def free_count_def
           split: option.splits if_splits)

lemma update_k_n_abort:
  "update_k_n p comm = Fault q \<Longrightarrow> trace q = trace p"
  "update_k_n p comm \<noteq> AssertFail q"
  "update_k_n p comm \<noteq> Throw q"
  by (auto simp: update_k_n_def umap_index_def Let_def split: option.splits if_splits prod.splits)

lemma track_refl:
  "k_n_map (hear p) comm = Some n \<Longrightarrow> n < length (k_n_storage (hear p)) \<Longrightarrow>
   track E comm n (k_n_storage (hear p)) p p"
  by (simp add: track_def)

lemma track_allreduce_blocking:
  assumes t: "track E comm n S p0 p" and pl: "plain E"
    and sh: "\<And>y cnt r. E (Ev_PMPI_Allreduce y cnt dt opr comm r)"
  shows "track E comm n S p0 (end_state (allreduce_blocking bld mpl p sb rb cnt dt opr comm))"
proof (cases "encrypt_sendbuf bld mpl p sb cnt dt opr comm")
  case (AssertFail q)
  with track_encrypt_sendbuf[OF t pl, where bld=bld and mpl=mpl and sb=sb and cnt=cnt and dt=dt and opr=opr]
  show ?thesis by (simp add: allreduce_blocking_def)
next
  case (Fault q)
  with track_encrypt_sendbuf[OF t pl, where bld=bld and mpl=mpl and sb=sb and cnt=cnt and dt=dt and opr=opr]
  show ?thesis by (simp add: allreduce_blocking_def)
next
  case (Throw q)
  with track_encrypt_sendbuf[OF t pl, where bld=bld and mpl=mpl and sb=sb and cnt=cnt and dt=dt and opr=opr]
  show ?thesis by (simp add: allreduce_blocking_def)
next
  case (Return x)
  obtain b p1 where x: "x = (b, p1)" by (cases x)
  from Return x track_encrypt_sendbuf[OF t pl, where bld=bld and mpl=mpl and sb=sb and cnt=cnt and dt=dt and opr=opr]
  have t1: "track E comm n S p0 p1" by simp
  show ?thesis
  proof (cases b)
    case None
    with Return x t1 show ?thesis by (simp add: allreduce_blocking_def)
  next
    case (Some s)
    obtain ret rb1 where c: "PMPI_Allreduce mpl (sbuf_mem p1 s) rb cnt dt opr comm = (ret, rb1)"
      by (cases "PMPI_Allreduce mpl (sbuf_mem p1 s) rb cnt dt opr comm")
    let ?p2 = "emit (Ev_PMPI_Allreduce (sbuf_mem p1 s) cnt dt opr comm ret) p1"
    have t2: "track E comm n S p0 ?p2" using t1 sh by (simp add: track_emit)
    show ?thesis
    proof (cases "ret = MPI_SUCCESS")
      case False
      with Return x Some c track_sbuf_free[OF t2 pl] show ?thesis
        by (simp add: allreduce_blocking_def Let_def cleanup_def release_memory_def)
    next
      case True
      from track_decrypt_recvbuf[OF t2 pl, where rb=rb1 and off=0 and cnt=cnt and dt=dt and opr=opr]
      show ?thesis using Return x Some c True track_sbuf_free[OF _ pl]
        by (auto simp: allreduce_blocking_def Let_def cleanup_def release_memory_def
                 split: outcome.splits)
    qed
  qed
qed

lemma track_allreduce_pipelined:
  assumes t: "track E comm n S p0 p" and pl: "plain E"
    and sh: "\<And>y off cnt r. E (Ev_PMPI_Iallreduce y off cnt dt opr comm r)"
    and run: "allreduce_pipelined bld mpl junk p sb rb count ds dt opr comm = Some out"
  shows "track E comm n S p0 (end_state out)"
proof -
  let ?cnt0 = "if count < pipelining_block_size bld then count else pipelining_block_size bld"
  note enc = track_encrypt_sendbuf[OF t pl, where bld=bld and mpl=mpl and sb=sb and cnt="?cnt0" and dt=dt and opr=opr]
  show ?thesis
  proof (cases "encrypt_sendbuf bld mpl p sb ?cnt0 dt opr comm")
    case (AssertFail q)
    with enc run show ?thesis by (auto simp: allreduce_pipelined_def Let_def)
  next
    case (Fault q)
    with enc run show ?thesis by (auto simp: allreduce_pipelined_def Let_def)
  next
    case (Throw q)
    with enc run show ?thesis by (auto simp: allreduce_pipelined_def Let_def)
  next
    case (Return x)
    obtain b p1 where x: "x = (b, p1)" by (cases x)
    from Return x enc have t1: "track E comm n S p0 p1" by simp
    show ?thesis
    proof (cases b)
      case None
      with Return x t1 run show ?thesis
        by (auto simp: allreduce_pipelined_def Let_def cleanup_def release_memory_def)
    next
      case (Some s)
      let ?v0 = "\<lparr>encr_sendbuf = b, encr_sendbuf_next = junk_sendbuf_next junk,
                        prev_offset = 0, cur_offset = 0, next_offset = 0,
                        prev_count = junk_prev_count junk, cur_count = ?cnt0,
                        next_count = junk_next_count junk, total_count = count,
                        req = junk_req junk, rbuf = rb, proc = p1\<rparr>"
      from Return x Some run obtain lo where
        lo: "pipeline_loop bld mpl sb dt opr comm ds ?v0 = Some lo"
        by (auto simp: allreduce_pipelined_def Let_def split: option.splits)
      have i0: "tr E comm n S p0 ?v0" using t1 by simp
      have "post (\<lambda>u. tr E comm n S p0 u \<and> total_count u = 0) (\<lambda>r. tr E comm n S p0) (track E comm n S p0) lo"
      proof (rule post_loop[where I="tr E comm n S p0" and X="\<lambda>r. tr E comm n S p0"
            and A="track E comm n S p0", OF lo i0])
        fix u assume "tr E comm n S p0 u"
        then show "post (tr E comm n S p0) (\<lambda>r. tr E comm n S p0) (track E comm n S p0)
            (pipeline_step bld mpl sb dt opr comm ds u)"
          by (rule track_pipeline_step[where E'="\<lambda>r. E"]) (rule pl, rule sh, rule sh, assumption)
      qed
      then show ?thesis
      proof (cases lo)
        case (AssertFail q)
        assume "post (\<lambda>u. tr E comm n S p0 u \<and> total_count u = 0) (\<lambda>r. tr E comm n S p0) (track E comm n S p0) lo"
        with AssertFail Return x Some run lo show ?thesis
          by (auto simp: allreduce_pipelined_def Let_def)
      next
        case (Fault q)
        assume "post (\<lambda>u. tr E comm n S p0 u \<and> total_count u = 0) (\<lambda>r. tr E comm n S p0) (track E comm n S p0) lo"
        with Fault Return x Some run lo show ?thesis
          by (auto simp: allreduce_pipelined_def Let_def)
      next
        case (Throw q)
        assume "post (\<lambda>u. tr E comm n S p0 u \<and> total_count u = 0) (\<lambda>r. tr E comm n S p0) (track E comm n S p0) lo"
        with Throw Return x Some run lo show ?thesis
          by (auto simp: allreduce_pipelined_def Let_def)
      next
        case R: (Return y)
        assume po: "post (\<lambda>u. tr E comm n S p0 u \<and> total_count u = 0) (\<lambda>r. tr E comm n S p0) (track E comm n S p0) lo"
        obtain r v where y: "y = (r, v)" by (cases y)
        from po R y have tv: "track E comm n S p0 (proc v)" by (cases r) simp_all
        show ?thesis
        proof (cases r)
          case None
          let ?d = "decrypt_recvbuf (proc v) (rbuf v) (prev_offset v) (prev_count v) dt opr comm"
          from R y None Return x Some run lo
          have oe: "out = ?d"
            by (cases ?d) (auto simp: allreduce_pipelined_def Let_def split: if_splits)
          from track_decrypt_recvbuf[OF tv pl, where rb="rbuf v" and off="prev_offset v" and cnt="prev_count v" and dt=dt and opr=opr]
          show ?thesis unfolding oe
            by (cases ?d) (auto split: if_splits)
        next
          case (Some ret)
          from R y Some Return x \<open>b = Some s\<close> run lo
          have oe: "out = cleanup bld (proc v) (encr_sendbuf v) ret (rbuf v)"
            by (simp add: allreduce_pipelined_def Let_def)
          from track_release_memory[OF tv pl, where bld=bld and buf="encr_sendbuf v"]
          show ?thesis unfolding oe cleanup_def
            by (cases "release_memory bld (proc v) (encr_sendbuf v)") auto
        qed
      qed
    qed
  qed
qed

lemma update_k_n_registered:
  assumes "k_n_map (hear p) comm = Some n" and "n < length (k_n_storage (hear p))"
  shows "update_k_n p comm = Return (emit (Ev_update_k_n comm)
           (p\<lparr>hear := (hear p)\<lparr>k_n_storage :=
               (k_n_storage (hear p))[n := prng (hear p) (k_n_storage (hear p) ! n)]\<rparr>\<rparr>))"
  using assms by (simp add: update_k_n_def umap_index_def Let_def)

lemma MPI_Allreduce_supported:
  assumes "opr = MPI_SUM \<or> opr = MPI_PROD" and "dt = MPI_INT \<or> dt = MPI_FLOAT"
  shows "MPI_Allreduce bld mpl junk p sb rb count dt opr comm =
     (case update_k_n p comm of
        AssertFail q \<Rightarrow> Some (AssertFail q)
      | Fault q \<Rightarrow> Some (Fault q)
      | Throw q \<Rightarrow> Some (Throw q)
      | Return p1 \<Rightarrow>
          if \<not> USE_PIPELINING bld
          then Some (allreduce_blocking bld mpl p1 sb rb count dt opr comm)
          else allreduce_pipelined bld mpl junk p1 sb rb count (MPI_Type_size dt) dt opr comm)"
  using assms by (auto simp: MPI_Allreduce_def Let_def)

lemma track_calm_but: "track calm comm n S p0 q \<Longrightarrow> track (calm_but r) comm n S p0 q"
  by (erule track_weaken) (simp add: calm_but_def)

lemma holding_release:
  assumes "holding bld p0 buf p"
  shows "\<exists>b. buf = Some b \<and> release_memory bld p buf = Return (sbuf_free bld p b) \<and>
            conserved p0 (sbuf_free bld p b)"
  using assms
  by (auto simp: holding_def release_memory_def conserved_def sbuf_free_scratch split: if_splits)

lemma shadow_post_decrypt:
  assumes "track calm comm n S p0 p"
  shows "shadow_post comm n S p0 (decrypt_recvbuf p rb off cnt dt opr comm)"
  using track_decrypt_recvbuf[OF assms plain_calm(1), where rb=rb and off=off and cnt=cnt and dt=dt and opr=opr]
  by (cases "decrypt_recvbuf p rb off cnt dt opr comm") (auto simp: shadow_post_def)

lemma shadow_allreduce_blocking:
  assumes t: "track calm comm n S p0 p" and c0: "conserved p0 p"
  shows "shadow_post comm n S p0 (allreduce_blocking bld mpl p sb rb cnt dt opr comm)"
proof -
  note enc = track_encrypt_sendbuf[OF t plain_calm(1), where bld=bld and mpl=mpl and sb=sb and cnt=cnt and dt=dt and opr=opr]
  note scr = encrypt_sendbuf_scratch[where bld=bld and mpl=mpl and p=p and sb=sb and cnt=cnt and dt=dt and opr=opr and comm=comm]
  show ?thesis
  proof (cases "encrypt_sendbuf bld mpl p sb cnt dt opr comm")
    case (AssertFail q)
    with enc show ?thesis by (simp add: allreduce_blocking_def shadow_post_def)
  next
    case (Fault q)
    with enc show ?thesis by (simp add: allreduce_blocking_def shadow_post_def)
  next
    case (Throw q)
    with enc show ?thesis by (simp add: allreduce_blocking_def shadow_post_def)
  next
    case (Return x)
    obtain b p1 where x: "x = (b, p1)" by (cases x)
    from Return x enc have t1: "track calm comm n S p0 p1" by simp
    show ?thesis
    proof (cases b)
      case None
      with Return x t1 show ?thesis by (simp add: allreduce_blocking_def shadow_post_def)
    next
      case (Some s)
      from Return x Some scr have tk: "took bld s p p1" by simp
      obtain ret rb1 where c: "PMPI_Allreduce mpl (sbuf_mem p1 s) rb cnt dt opr comm = (ret, rb1)"
        by (cases "PMPI_Allreduce mpl (sbuf_mem p1 s) rb cnt dt opr comm")
      let ?p2 = "emit (Ev_PMPI_Allreduce (sbuf_mem p1 s) cnt dt opr comm ret) p1"
      have h2: "holding bld p0 (Some s) ?p2"
        using tk c0 by (auto simp: holding_def took_def conserved_def)
      show ?thesis
      proof (cases "ret = MPI_SUCCESS")
        case False
        have t2: "track (calm_but ret) comm n S p0 ?p2"
          using track_calm_but[OF t1] by (simp add: track_emit calm_but_def)
        from holding_release[OF h2] track_sbuf_free[OF t2 plain_calm(2)]
        show ?thesis using Return x Some c False
          by (auto simp: allreduce_blocking_def Let_def cleanup_def shadow_post_def)
      next
        case True
        have t2: "track calm comm n S p0 ?p2"
          using t1 True by (simp add: track_emit calm_def)
        let ?d = "decrypt_recvbuf ?p2 rb1 0 cnt dt opr comm"
        from track_decrypt_recvbuf[OF t2 plain_calm(1), where rb=rb1 and off=0 and cnt=cnt and dt=dt and opr=opr]
        show ?thesis using Return x Some c True track_sbuf_free[OF _ plain_calm(1)]
          by (cases ?d)
             (auto simp: allreduce_blocking_def Let_def cleanup_def release_memory_def shadow_post_def)
      qed
    qed
  qed
qed

lemma shadow_pipeline_step:
  assumes t: "tr calm comm n S p0 u" and h: "total_count u \<noteq> 0 \<longrightarrow> hold bld p0 u" and nz: "total_count u \<noteq> 0"
  shows "post (\<lambda>v. tr calm comm n S p0 v \<and> (total_count v \<noteq> 0 \<longrightarrow> hold bld p0 v))
              (\<lambda>r v. tr (calm_but r) comm n S p0 v \<and> hold bld p0 v)
              (\<lambda>q. track calm comm n S p0 q \<and> True)
              (pipeline_step bld mpl sb dt opr comm ds u)"
proof (rule post_conj)
  show "post (tr calm comm n S p0) (\<lambda>r. tr (calm_but r) comm n S p0) (track calm comm n S p0)
          (pipeline_step bld mpl sb dt opr comm ds u)"
    by (rule track_pipeline_step[where E=calm and E'=calm_but, OF t plain_calm(1)])
       (simp_all add: calm_def calm_but_def)
  from h nz have "hold bld p0 u" by simp
  then show "post (\<lambda>v. total_count v \<noteq> 0 \<longrightarrow> hold bld p0 v) (\<lambda>r. hold bld p0) (\<lambda>q. True)
          (pipeline_step bld mpl sb dt opr comm ds u)"
    by (rule hold_pipeline_step)
qed

lemma shadow_allreduce_pipelined:
  assumes t: "track calm comm n S p0 p" and c0: "conserved p0 p"
    and run: "allreduce_pipelined bld mpl junk p sb rb count ds dt opr comm = Some out"
  shows "shadow_post comm n S p0 out"
proof -
  let ?cnt0 = "if count < pipelining_block_size bld then count else pipelining_block_size bld"
  note enc = track_encrypt_sendbuf[OF t plain_calm(1), where bld=bld and mpl=mpl and sb=sb and cnt="?cnt0" and dt=dt and opr=opr]
  note scr = encrypt_sendbuf_scratch[where bld=bld and mpl=mpl and p=p and sb=sb and cnt="?cnt0" and dt=dt and opr=opr and comm=comm]
  show ?thesis
  proof (cases "encrypt_sendbuf bld mpl p sb ?cnt0 dt opr comm")
    case (AssertFail q)
    with enc run show ?thesis by (auto simp: allreduce_pipelined_def Let_def shadow_post_def)
  next
    case (Fault q)
    with enc run show ?thesis by (auto simp: allreduce_pipelined_def Let_def shadow_post_def)
  next
    case (Throw q)
    with enc run show ?thesis by (auto simp: allreduce_pipelined_def Let_def shadow_post_def)
  next
    case (Return x)
    obtain b p1 where x: "x = (b, p1)" by (cases x)
    from Return x enc have t1: "track calm comm n S p0 p1" by simp
    show ?thesis
    proof (cases b)
      case None
      with Return x t1 run show ?thesis
        by (auto simp: allreduce_pipelined_def Let_def cleanup_def release_memory_def shadow_post_def)
    next
      case (Some s)
      from Return x Some scr have tk: "took bld s p p1" by simp
      have h1: "holding bld p0 (Some s) p1"
        using tk c0 by (auto simp: holding_def took_def conserved_def)
      let ?v0 = "\<lparr>encr_sendbuf = b, encr_sendbuf_next = junk_sendbuf_next junk,
                        prev_offset = 0, cur_offset = 0, next_offset = 0,
                        prev_count = junk_prev_count junk, cur_count = ?cnt0,
                        next_count = junk_next_count junk, total_count = count,
                        req = junk_req junk, rbuf = rb, proc = p1\<rparr>"
      let ?I = "\<lambda>v. tr calm comm n S p0 v \<and> (total_count v \<noteq> 0 \<longrightarrow> hold bld p0 v)"
      let ?X = "\<lambda>r v. tr (calm_but r) comm n S p0 v \<and> hold bld p0 v"
      let ?A = "\<lambda>q. track calm comm n S p0 q \<and> True"
      from Return x Some run obtain lo where
        lo: "pipeline_loop bld mpl sb dt opr comm ds ?v0 = Some lo"
        by (auto simp: allreduce_pipelined_def Let_def split: option.splits)
      have i0: "?I ?v0" using t1 h1 Some by simp
      have po: "post (\<lambda>u. ?I u \<and> total_count u = 0) ?X ?A lo"
      proof (rule post_loop[where I="?I" and X="?X" and A="?A", OF lo i0])
        fix u assume "?I u" and "total_count u \<noteq> 0"
        then show "post ?I ?X ?A (pipeline_step bld mpl sb dt opr comm ds u)"
          using shadow_pipeline_step[of comm n S p0 u bld mpl sb dt opr ds] by blast
      qed
      show ?thesis
      proof (cases lo)
        case (AssertFail q)
        with po Return x Some run lo show ?thesis
          by (auto simp: allreduce_pipelined_def Let_def shadow_post_def)
      next
        case (Fault q)
        with po Return x Some run lo show ?thesis
          by (auto simp: allreduce_pipelined_def Let_def shadow_post_def)
      next
        case (Throw q)
        with po Return x Some run lo show ?thesis
          by (auto simp: allreduce_pipelined_def Let_def shadow_post_def)
      next
        case R: (Return y)
        obtain r v where y: "y = (r, v)" by (cases y)
        show ?thesis
        proof (cases r)
          case None
          let ?d = "decrypt_recvbuf (proc v) (rbuf v) (prev_offset v) (prev_count v) dt opr comm"
          from po R y None have tv: "track calm comm n S p0 (proc v)" by simp
          from R y None Return x Some run lo
          have oe: "out = ?d"
            by (cases ?d) (auto simp: allreduce_pipelined_def Let_def split: if_splits)
          show ?thesis unfolding oe using tv by (rule shadow_post_decrypt)
        next
          case (Some ret)
          from po R y Some have tv: "track (calm_but ret) comm n S p0 (proc v)"
            and hv: "holding bld p0 (encr_sendbuf v) (proc v)" by simp_all
          from R y Some Return x \<open>b = Some s\<close> run lo
          have oe: "out = cleanup bld (proc v) (encr_sendbuf v) ret (rbuf v)"
            by (simp add: allreduce_pipelined_def Let_def)
          from holding_release[OF hv] obtain c where
            c: "release_memory bld (proc v) (encr_sendbuf v) = Return (sbuf_free bld (proc v) c)"
               "conserved p0 (sbuf_free bld (proc v) c)" by blast
          from track_sbuf_free[OF tv plain_calm(2)] c
          show ?thesis unfolding oe cleanup_def by (simp add: shadow_post_def)
        qed
      qed
    qed
  qed
qed

lemma track_blame:
  assumes "track (calm_but r) comm n S p0 q" and "e \<in> set (new_events p0 q)"
    and "shadow_code e = Some c" and "c \<noteq> MPI_SUCCESS"
  shows "c = r"
proof -
  from assms(1) obtain es where es: "trace q = trace p0 @ es" "\<forall>e \<in> set es. calm_but r e"
    by (auto simp: track_def)
  from es(1) assms(2) have "e \<in> set es" by (simp add: new_events_def)
  with es(2) have "calm_but r e" by blast
  with assms(3,4) show ?thesis by (simp add: calm_but_def calm_def)
qed

lemma track_trans_update:
  assumes "trace p1 = trace p @ [Ev_update_k_n comm]" and "track E comm n S p1 q" and "E (Ev_update_k_n comm)"
  shows "track E comm n S p q"
  using assms by (auto simp: track_def)

subsection \<open>The integer sum across the ranks\<close>

lemma length_native_sum [simp]: "length (native_sum bufs cnt) = cnt"
  by (simp add: native_sum_def)


lemma length_enc [simp]: "length (enc prf ks kn N r x c cnt) = nat cnt"
  by (simp add: enc_def encrypt_int_sum_naive_def)




lemma native_sum_take:
  "n \<le> m \<Longrightarrow> take n (native_sum bufs m) = native_sum bufs n"
  by (simp add: native_sum_def take_map)




lemma silent_refl [simp]: "silent p p"
  by (simp add: silent_def)






lemma mem_update_from [simp]: "mem_update rb off tsz (mem_from rb off tsz) = rb"
  by (simp add: mem_update_def mem_from_def)


lemma keyed_emit [simp]: "hear (emit e p) = hear p"
  by (simp add: emit_def)



lemma slab_len_emit [simp]: "slab_len (emit e p) = slab_len p"
  by (simp add: slab_len_def emit_def)

lemma slab_len_sbuf_free [simp]: "slab_len (sbuf_free bld p b) = slab_len p"
  by (simp add: slab_len_def sbuf_free_def emit_def release_buf_def)


lemma roomy_cong: "slab_len q = slab_len p \<Longrightarrow> roomy bld m q = roomy bld m p"
  by (simp add: roomy_def)


























lemmas example_defs = example_process_def example_hear_def example_mpl_def example_junk_def
  example_prng_def

lemmas run_defs = MPI_Allreduce_def update_k_n_def umap_index_def Let_def emit_def
  allreduce_blocking_def allreduce_pipelined_def encrypt_sendbuf_def decrypt_recvbuf_def
  sbuf_alloc_def sbuf_room_def overruns_def int32_def
  sbuf_free_def acquire_buf_def release_buf_def cleanup_def release_memory_def
  lookup_keys_def pipeline_step_def pipeline_issue_def pipeline_prev_def pipeline_next_def
  pipeline_rotate_def then_do_def sbuf_content_def mem_from_def mem_update_def mem_store_def
  cell_index_def MPI_SUCCESS_def MPI_ERR_BUFFER_def MPI_ERR_TYPE_def
  example_build_def pipelined_build_def example_defs
  encrypt_int_sum_naive_def decrypt_int_sum_naive_def mask_def

lemmas run_defs2 = run_defs heap_build_def plain_heap_build_def exhausted_process_def

section \<open>The key/nonce store\<close>

text \<open>
  C8.  \<open>update_k_n comm\<close> on a communicator whose nonce is stored at index \<open>i\<close> puts
  \<open>prng\<close> of the stored nonce at index \<open>i\<close> and changes nothing else of \<open>HearState\<close>:
  the nonce of \<open>comm\<close> is the \<open>prng\<close> of its old value, \<open>prng\<close> being the function
  \<open>HearState\<close> holds since its construction; the nonce of every communicator stored at
  another index, every shared-key vector and both maps are as before.
\<close>

theorem update_k_n_replaces_nonce:
  assumes "k_n_map (hear p) comm = Some i" and "i < length (k_n_storage (hear p))"
  shows "\<exists>p'. update_k_n p comm = Return p' \<and>
           hear p' = (hear p)\<lparr>k_n_storage :=
                        (k_n_storage (hear p))[i := prng (hear p) (k_n_storage (hear p) ! i)]\<rparr> \<and>
           K_n (hear p') comm = Some (prng (hear p) (k_n_storage (hear p) ! i)) \<and>
           (\<forall>c. k_n_map (hear p) c \<noteq> Some i \<longrightarrow> K_n (hear p') c = K_n (hear p) c) \<and>
           (\<forall>c. K_s (hear p') c = K_s (hear p) c)"
  using assms
  by (auto simp: update_k_n_def umap_index_def emit_def K_n_def K_s_def Let_def
           split: option.splits)

theorem update_k_n_replaces_nonce_witness:
  "k_n_map (hear example_process) 0 = Some 0 \<and> 0 < length (k_n_storage (hear example_process)) \<and>
   (\<exists>p'. update_k_n example_process 0 = Return p' \<and>
      K_n (hear p') 0 = Some (example_prng 5) \<and>
      (k_n_map (hear example_process) 1 \<noteq> Some 0 \<and> K_n (hear p') 1 = K_n (hear example_process) 1) \<and>
      K_s (hear p') 0 = Some [7, 9])"
proof -
  have a: "k_n_map (hear example_process) 0 = Some 0"
    by (simp add: example_process_def example_hear_def)
  have b: "0 < length (k_n_storage (hear example_process))"
    by (simp add: example_process_def example_hear_def)
  have c: "k_n_map (hear example_process) 1 \<noteq> Some 0"
    by (simp add: example_process_def example_hear_def)
  have d: "K_s (hear example_process) 0 = Some [7, 9]"
    by (simp add: example_process_def example_hear_def K_s_def)
  have e: "prng (hear example_process) (k_n_storage (hear example_process) ! 0) = example_prng 5"
    by (simp add: example_process_def example_hear_def)
  from update_k_n_replaces_nonce [OF a b] obtain p' where
    "update_k_n example_process 0 = Return p'"
    "K_n (hear p') 0 = Some (prng (hear example_process) (k_n_storage (hear example_process) ! 0))"
    "\<forall>c. k_n_map (hear example_process) c \<noteq> Some 0 \<longrightarrow> K_n (hear p') c = K_n (hear example_process) c"
    "\<forall>c. K_s (hear p') c = K_s (hear example_process) c"
    by blast
  with a b c d e show ?thesis by auto
qed

text \<open>
  C6.  A second \<open>insert_new_comm\<close> on a handle that the shared-key map already holds
  fails the assertion on the flag of the insertion: it does not return.
\<close>

theorem insert_new_comm_twice_asserts:
  assumes "k_s_map (hear p) comm \<noteq> None"
    and "0 \<le> MPI_Comm_rank mpl comm" and "MPI_Comm_rank mpl comm < MPI_Comm_size mpl comm"
  shows "\<exists>q. insert_new_comm mpl p comm = AssertFail q"
  using assms
  by (auto simp: insert_new_comm_def umap_insert_def in_range_def Let_def
                 encr_noise_generator_def split: prod.splits option.splits)

theorem insert_new_comm_twice_asserts_witness:
  "k_s_map (hear example_process) 0 \<noteq> None \<and>
   0 \<le> MPI_Comm_rank (example_mpl 0 0) 0 \<and>
   MPI_Comm_rank (example_mpl 0 0) 0 < MPI_Comm_size (example_mpl 0 0) 0 \<and>
   (\<exists>q. insert_new_comm (example_mpl 0 0) example_process 0 = AssertFail q)"
  using insert_new_comm_twice_asserts [of example_process 0 "example_mpl 0 0"]
  by (simp add: example_defs)

text \<open>
  C7.  On a handle neither map holds, with the caller's rank inside the communicator:
  a failing all-gather makes \<open>insert_new_comm\<close> return the all-gather's code, a failing
  broadcast (after a successful all-gather) the broadcast's code; and when it returns
  \<open>MPI_SUCCESS\<close>, the shared-key vector of the handle has as many elements as the
  communicator has ranks, holds at the caller's rank the random word the caller drew and
  at every other index the word the all-gather delivered, and the nonce of the handle is
  the second random word of the caller at the root and the broadcast word elsewhere.
\<close>

theorem insert_new_comm_registers:
  assumes "k_s_map (hear p) comm = None" and "k_n_map (hear p) comm = None"
    and "0 \<le> MPI_Comm_rank mpl comm" and "MPI_Comm_rank mpl comm < MPI_Comm_size mpl comm"
  shows "(fst (PMPI_Allgather mpl comm) \<noteq> MPI_SUCCESS \<longrightarrow>
            (\<exists>p'. insert_new_comm mpl p comm = Return (fst (PMPI_Allgather mpl comm), p')))
       \<and> (fst (PMPI_Allgather mpl comm) = MPI_SUCCESS \<and> fst (PMPI_Bcast mpl comm) \<noteq> MPI_SUCCESS \<longrightarrow>
            (\<exists>p'. insert_new_comm mpl p comm = Return (fst (PMPI_Bcast mpl comm), p')))
       \<and> (\<forall>p'. insert_new_comm mpl p comm = Return (MPI_SUCCESS, p') \<longrightarrow>
            (\<exists>ks. K_s (hear p') comm = Some ks
               \<and> length ks = nat (MPI_Comm_size mpl comm)
               \<and> ks ! nat (MPI_Comm_rank mpl comm) = noise_src p (noise_pos p)
               \<and> (\<forall>j < nat (MPI_Comm_size mpl comm). int j \<noteq> MPI_Comm_rank mpl comm \<longrightarrow>
                      ks ! j = snd (PMPI_Allgather mpl comm) j))
            \<and> K_n (hear p') comm =
                 Some (if MPI_Comm_rank mpl comm = root_rank then noise_src p (Suc (noise_pos p))
                       else snd (PMPI_Bcast mpl comm)))"
  using assms
  apply (intro conjI impI allI)
    apply (auto simp: insert_new_comm_def umap_insert_def umap_index_def in_range_def Let_def
                      encr_noise_generator_def K_s_def K_n_def nth_append
                split: prod.splits option.splits if_splits)
  done

theorem insert_new_comm_registers_witness:
  "k_s_map (hear example_process) 1 = None \<and> k_n_map (hear example_process) 1 = None \<and>
   0 \<le> MPI_Comm_rank (example_mpl 1 0) 1 \<and>
   MPI_Comm_rank (example_mpl 1 0) 1 < MPI_Comm_size (example_mpl 1 0) 1 \<and>
   (\<exists>p'. insert_new_comm (example_mpl 1 0) example_process 1 = Return (MPI_SUCCESS, p') \<and>
      K_s (hear p') 1 = Some [100, 3] \<and> K_n (hear p') 1 = Some 77) \<and>
   fst (PMPI_Allgather (example_mpl 1 5) 1) \<noteq> MPI_SUCCESS \<and>
   (\<exists>p'. insert_new_comm (example_mpl 1 5) example_process 1 = Return (5, p'))"
proof -
  have h: "k_s_map (hear example_process) 1 = None" "k_n_map (hear example_process) 1 = None"
    "0 \<le> MPI_Comm_rank (example_mpl 1 0) 1"
    "MPI_Comm_rank (example_mpl 1 0) 1 < MPI_Comm_size (example_mpl 1 0) 1"
    "0 \<le> MPI_Comm_rank (example_mpl 1 5) 1"
    "MPI_Comm_rank (example_mpl 1 5) 1 < MPI_Comm_size (example_mpl 1 5) 1"
    by (simp_all add: example_defs)
  have run: "\<exists>p'. insert_new_comm (example_mpl 1 0) example_process 1 = Return (MPI_SUCCESS, p')"
    by (simp add: insert_new_comm_def example_defs Let_def in_range_def encr_noise_generator_def
          umap_insert_def umap_index_def MPI_SUCCESS_def root_rank_def)
  then obtain p' where p': "insert_new_comm (example_mpl 1 0) example_process 1 = Return (MPI_SUCCESS, p')" ..
  from insert_new_comm_registers [OF h(1) h(2) h(3) h(4)] p'
  obtain ks where ks: "K_s (hear p') 1 = Some ks" "length ks = nat (MPI_Comm_size (example_mpl 1 0) 1)"
      "ks ! nat (MPI_Comm_rank (example_mpl 1 0) 1) = noise_src example_process (noise_pos example_process)"
      "\<forall>j < nat (MPI_Comm_size (example_mpl 1 0) 1). int j \<noteq> MPI_Comm_rank (example_mpl 1 0) 1 \<longrightarrow>
                      ks ! j = snd (PMPI_Allgather (example_mpl 1 0) 1) j"
    and kn: "K_n (hear p') 1 =
                 Some (if MPI_Comm_rank (example_mpl 1 0) 1 = root_rank then noise_src example_process (Suc (noise_pos example_process))
                       else snd (PMPI_Bcast (example_mpl 1 0) 1))"
    by blast
  have len: "length ks = 2" using ks(2) by (simp add: example_defs)
  have k1: "ks ! 1 = 3" using ks(3) by (simp add: example_defs)
  have k0: "ks ! 0 = 100" using ks(4) by (simp add: example_defs)
  have kseq: "ks = [100, 3]"
    using len k0 k1 by (auto simp: list_eq_iff_nth_eq nth_Cons' less_Suc_eq numeral_2_eq_2)
  have kn77: "K_n (hear p') 1 = Some 77" using kn by (simp add: example_defs root_rank_def)
  have f: "fst (PMPI_Allgather (example_mpl 1 5) 1) \<noteq> MPI_SUCCESS"
    by (simp add: example_defs MPI_SUCCESS_def)
  from insert_new_comm_registers [OF h(1) h(2) h(5) h(6)] f
  have "\<exists>p'. insert_new_comm (example_mpl 1 5) example_process 1 = Return (fst (PMPI_Allgather (example_mpl 1 5) 1), p')"
    by blast
  then have g: "\<exists>p'. insert_new_comm (example_mpl 1 5) example_process 1 = Return (5, p')"
    by (simp add: example_defs)
  show ?thesis using h p' ks(1) kseq kn77 f g by auto
qed

section \<open>The all-reduce\<close>

text \<open>
  C3.  A call with \<open>op\<close> one of sum and product and \<open>datatype\<close> one of int and float, on a
  communicator whose nonce is stored, adds \<open>Ev_update_k_n comm\<close> as its first event and no
  other update of a nonce after it, whatever the outcome and on either path: every call of
  the mask engine comes after the one advance, and each is made with the advanced nonce,
  which is also the nonce the store holds at the end.
\<close>

theorem nonce_advanced_once_before_masking:
  assumes "opr = MPI_SUM \<or> opr = MPI_PROD" and "dt = MPI_INT \<or> dt = MPI_FLOAT"
    and "k_n_map (hear p) comm = Some n" and "n < length (k_n_storage (hear p))"
    and "MPI_Allreduce bld mpl junk p sendbuf recvbuf count dt opr comm = Some out"
  shows "\<exists>rest. trace (end_state out) = trace p @ Ev_update_k_n comm # rest
      \<and> (\<forall>e \<in> set rest. \<not> is_update e)
      \<and> (\<forall>e \<in> set rest. \<forall>kn. mask_nonce e = Some kn \<longrightarrow>
             kn = prng (hear p) (k_n_storage (hear p) ! n))
      \<and> K_n (hear (end_state out)) comm = Some (prng (hear p) (k_n_storage (hear p) ! n))"
proof -
  let ?S = "(k_n_storage (hear p))[n := prng (hear p) (k_n_storage (hear p) ! n)]"
  let ?p1 = "emit (Ev_update_k_n comm) (p\<lparr>hear := (hear p)\<lparr>k_n_storage := ?S\<rparr>\<rparr>)"
  let ?E = "\<lambda>e. \<not> is_update e"
  have u: "update_k_n p comm = Return ?p1" using assms(3,4) by (rule update_k_n_registered)
  have t0: "track ?E comm n ?S ?p1 ?p1"
    using assms(3,4) by (simp add: track_def emit_def)
  have t: "track ?E comm n ?S ?p1 (end_state out)"
  proof (cases "USE_PIPELINING bld")
    case False
    with assms(5) u have "out = allreduce_blocking bld mpl ?p1 sendbuf recvbuf count dt opr comm"
      by (simp add: MPI_Allreduce_supported[OF assms(1,2)])
    with track_allreduce_blocking[OF t0 plain_not_update, where dt=dt and opr=opr and bld=bld and mpl=mpl
        and sb=sendbuf and rb=recvbuf and cnt=count]
    show ?thesis by simp
  next
    case True
    with assms(5) u have "allreduce_pipelined bld mpl junk ?p1 sendbuf recvbuf count (MPI_Type_size dt) dt opr comm = Some out"
      by (simp add: MPI_Allreduce_supported[OF assms(1,2)])
    from track_allreduce_pipelined[OF t0 plain_not_update _ this] show ?thesis by simp
  qed
  then obtain es where es: "trace (end_state out) = trace ?p1 @ es"
      "\<forall>e \<in> set es. \<not> is_update e \<and> (mask_nonce e = None \<or> mask_nonce e = Some (?S ! n))"
    and st: "k_n_map (hear (end_state out)) comm = Some n" "k_n_storage (hear (end_state out)) = ?S"
    by (auto simp: track_def)
  have sn: "?S ! n = prng (hear p) (k_n_storage (hear p) ! n)" using assms(4) by simp
  have "trace (end_state out) = trace p @ Ev_update_k_n comm # es"
    using es(1) by (simp add: emit_def)
  moreover have "\<forall>e \<in> set es. \<not> is_update e" using es(2) by blast
  moreover have "\<forall>e \<in> set es. \<forall>kn. mask_nonce e = Some kn \<longrightarrow>
             kn = prng (hear p) (k_n_storage (hear p) ! n)"
    using es(2) sn by auto
  moreover have "K_n (hear (end_state out)) comm = Some (prng (hear p) (k_n_storage (hear p) ! n))"
    using st assms(4) by (simp add: K_n_def)
  ultimately show ?thesis by blast
qed

theorem nonce_advanced_once_before_masking_witness:
  "(MPI_SUM = MPI_SUM \<or> MPI_SUM = MPI_PROD) \<and> (MPI_INT = MPI_INT \<or> MPI_INT = MPI_FLOAT) \<and>
   k_n_map (hear example_process) 0 = Some 0 \<and> 0 < length (k_n_storage (hear example_process)) \<and>
   (\<exists>out. MPI_Allreduce pipelined_build (example_mpl 0 0) example_junk example_process
             [1, 2, 3] [0, 0, 0] 3 MPI_INT MPI_SUM 0 = Some out \<and>
      (\<exists>rest. trace (end_state out) = trace example_process @ Ev_update_k_n 0 # rest
         \<and> (\<forall>e \<in> set rest. \<not> is_update e)
         \<and> (\<forall>e \<in> set rest. \<forall>kn. mask_nonce e = Some kn \<longrightarrow> kn = example_prng 5)
         \<and> Ev_encrypt MPI_INT MPI_SUM 1 (example_prng 5) \<in> set rest))"
proof -
  have g: "MPI_SUM = MPI_SUM \<or> MPI_SUM = MPI_PROD" "MPI_INT = MPI_INT \<or> MPI_INT = MPI_FLOAT"
    by simp_all
  have a: "k_n_map (hear example_process) 0 = Some 0" "0 < length (k_n_storage (hear example_process))"
    by (simp_all add: example_defs)
  have e: "prng (hear example_process) (k_n_storage (hear example_process) ! 0) = example_prng 5"
    by (simp add: example_process_def example_hear_def)
  have "\<exists>out. MPI_Allreduce pipelined_build (example_mpl 0 0) example_junk example_process
             [1, 2, 3] [0, 0, 0] 3 MPI_INT MPI_SUM 0 = Some out
           \<and> Ev_encrypt MPI_INT MPI_SUM 1 (example_prng 5) \<in> set (trace (end_state out))"
    by (simp add: run_defs pipeline_loop.simps)
  then obtain out where run: "MPI_Allreduce pipelined_build (example_mpl 0 0) example_junk
      example_process [1, 2, 3] [0, 0, 0] 3 MPI_INT MPI_SUM 0 = Some out"
    and m: "Ev_encrypt MPI_INT MPI_SUM 1 (example_prng 5) \<in> set (trace (end_state out))" by blast
  from nonce_advanced_once_before_masking [OF g a run] e obtain rest where
    r: "trace (end_state out) = trace example_process @ Ev_update_k_n 0 # rest"
      "\<forall>e \<in> set rest. \<not> is_update e"
      "\<forall>e \<in> set rest. \<forall>kn. mask_nonce e = Some kn \<longrightarrow> kn = example_prng 5"
    by auto
  have "trace example_process = []" by (simp add: example_defs)
  with m r(1) have "Ev_encrypt MPI_INT MPI_SUM 1 (example_prng 5) \<in> set rest" by simp
  with g a run r show ?thesis by blast
qed

text \<open>
  C5.  When a call with \<open>op\<close> one of sum and product and \<open>datatype\<close> one of int and float
  has made a shadow all-reduce (blocking, or non-blocking on the pipelined path) that
  returned a code other than \<open>MPI_SUCCESS\<close>, the call returns that code, and the pool has
  as many free slabs and the heap the same live scratch blocks as before the call.
\<close>

theorem shadow_error_returned_verbatim:
  assumes "opr = MPI_SUM \<or> opr = MPI_PROD" and "dt = MPI_INT \<or> dt = MPI_FLOAT"
    and "MPI_Allreduce bld mpl junk p sendbuf recvbuf count dt opr comm = Some out"
    and "e \<in> set (new_events p (end_state out))" and "shadow_code e = Some c" and "c \<noteq> MPI_SUCCESS"
  shows "\<exists>rb p'. out = Return (c, rb, p') \<and> free_count p' = free_count p \<and> heap_live p' = heap_live p"
proof (cases "update_k_n p comm")
  case (AssertFail q)
  then show ?thesis by (simp add: update_k_n_abort)
next
  case (Fault q)
  with assms(3) have "out = Fault q" by (simp add: MPI_Allreduce_supported[OF assms(1,2)])
  with update_k_n_abort(1)[OF Fault] assms(4) show ?thesis by (simp add: new_events_def)
next
  case (Throw q)
  then show ?thesis by (simp add: update_k_n_abort)
next
  case (Return p1)
  from update_k_n_Return[OF Return] obtain n where
    n: "k_n_map (hear p1) comm = Some n" "n < length (k_n_storage (hear p1))"
    and tp: "trace p1 = trace p @ [Ev_update_k_n comm]"
    and sc: "free_count p1 = free_count p" "heap_live p1 = heap_live p" by blast
  let ?S = "k_n_storage (hear p1)"
  have t0: "track calm comm n ?S p1 p1" using n by (rule track_refl)
  have c0: "conserved p1 p1" by (simp add: conserved_def)
  have sp: "shadow_post comm n ?S p1 out"
  proof (cases "USE_PIPELINING bld")
    case False
    with assms(3) Return have "out = allreduce_blocking bld mpl p1 sendbuf recvbuf count dt opr comm"
      by (simp add: MPI_Allreduce_supported[OF assms(1,2)])
    with shadow_allreduce_blocking[OF t0 c0] show ?thesis by simp
  next
    case True
    with assms(3) Return have "allreduce_pipelined bld mpl junk p1 sendbuf recvbuf count (MPI_Type_size dt) dt opr comm = Some out"
      by (simp add: MPI_Allreduce_supported[OF assms(1,2)])
    from shadow_allreduce_pipelined[OF t0 c0 this] show ?thesis .
  qed
  have up: "\<And>E q. track E comm n ?S p1 q \<Longrightarrow> E (Ev_update_k_n comm) \<Longrightarrow> track E comm n ?S p q"
    using tp by (rule track_trans_update)
  have nocalm: "\<And>q. track calm comm n ?S p1 q \<Longrightarrow> e \<in> set (new_events p q) \<Longrightarrow> False"
  proof -
    fix q assume "track calm comm n ?S p1 q" and eq: "e \<in> set (new_events p q)"
    then have "track (calm_but MPI_SUCCESS) comm n ?S p q"
      by (intro up track_calm_but) (simp_all add: calm_but_def calm_def)
    from track_blame[OF this eq assms(5,6)] assms(6) show False by simp
  qed
  show ?thesis
  proof (cases out)
    case (AssertFail q)
    with sp assms(4) nocalm show ?thesis by (auto simp: shadow_post_def)
  next
    case (Fault q)
    with sp assms(4) nocalm show ?thesis by (auto simp: shadow_post_def)
  next
    case (Throw q)
    with sp assms(4) nocalm show ?thesis by (auto simp: shadow_post_def)
  next
    case R: (Return y)
    obtain r rb p' where y: "y = (r, rb, p')" by (cases y)
    from sp R y have d: "track calm comm n ?S p1 p' \<or> (track (calm_but r) comm n ?S p1 p' \<and> conserved p1 p')"
      by (simp add: shadow_post_def)
    from assms(4) R y have ev: "e \<in> set (new_events p p')" by simp
    from d nocalm[OF _ ev] have tb: "track (calm_but r) comm n ?S p1 p'" and cv: "conserved p1 p'"
      by blast+
    have "track (calm_but r) comm n ?S p p'"
      using tb by (rule up) (simp add: calm_but_def calm_def)
    from track_blame[OF this ev assms(5,6)] have "c = r" .
    with R y cv sc show ?thesis by (simp add: conserved_def)
  qed
qed

theorem shadow_error_returned_verbatim_witness:
  "(MPI_SUM = MPI_SUM \<or> MPI_SUM = MPI_PROD) \<and> (MPI_INT = MPI_INT \<or> MPI_INT = MPI_FLOAT) \<and>
   5 \<noteq> MPI_SUCCESS \<and>
   (\<exists>out e. MPI_Allreduce pipelined_build (example_mpl 0 5) example_junk example_process
             [1, 2, 3] [0, 0, 0] 3 MPI_INT MPI_SUM 0 = Some out \<and>
      e \<in> set (new_events example_process (end_state out)) \<and> shadow_code e = Some 5 \<and>
      (\<exists>rb p'. out = Return (5, rb, p') \<and> free_count p' = 4 \<and> heap_live p' = []))"
proof -
  have g: "MPI_SUM = MPI_SUM \<or> MPI_SUM = MPI_PROD" "MPI_INT = MPI_INT \<or> MPI_INT = MPI_FLOAT"
    by simp_all
  have c: "(5::int) \<noteq> MPI_SUCCESS" by (simp add: MPI_SUCCESS_def)
  have f: "free_count example_process = 4" "heap_live example_process = []"
    by (simp_all add: example_defs free_count_def)
  have "\<exists>out. MPI_Allreduce pipelined_build (example_mpl 0 5) example_junk example_process
             [1, 2, 3] [0, 0, 0] 3 MPI_INT MPI_SUM 0 = Some out
           \<and> (\<exists>e \<in> set (new_events example_process (end_state out)). shadow_code e = Some 5)"
    by (simp add: run_defs pipeline_loop.simps new_events_def)
  then obtain out e where run: "MPI_Allreduce pipelined_build (example_mpl 0 5) example_junk
      example_process [1, 2, 3] [0, 0, 0] 3 MPI_INT MPI_SUM 0 = Some out"
    and e: "e \<in> set (new_events example_process (end_state out))" "shadow_code e = Some 5" by blast
  from shadow_error_returned_verbatim [OF g run e c] f
  have "\<exists>rb p'. out = Return (5, rb, p') \<and> free_count p' = 4 \<and> heap_live p' = []" by simp
  with g c run e show ?thesis by blast
qed

text \<open>
  C10.  A call with float and product on a communicator whose nonce is stored passes the
  test for unsupported requests: its first event is the advance of the nonce, no shadow
  all-reduce and no call of the mask engine follows, and the store holds the advanced
  nonce when the call ends, in every build.  Without pipelining the call returns
  \<open>MPI_ERR_BUFFER\<close> and the receive buffer is as it was, provided the request for the
  scratch buffer does not throw: the pool is in use, or \<open>count * 4\<close> is not negative as an
  \<^verbatim>\<open>int\<close>.  What a call with pipelining ends in is not part of the statement.
\<close>

theorem float_prod_advances_nonce:
  assumes "k_n_map (hear p) comm = Some n" and "n < length (k_n_storage (hear p))"
  shows "\<exists>out. MPI_Allreduce bld mpl junk p sendbuf recvbuf count MPI_FLOAT MPI_PROD comm = Some out
     \<and> K_n (hear (end_state out)) comm = Some (prng (hear p) (k_n_storage (hear p) ! n))
     \<and> (\<exists>rest. new_events p (end_state out) = Ev_update_k_n comm # rest
            \<and> (\<forall>e \<in> set rest. \<not> is_shadow e \<and> mask_nonce e = None))
     \<and> (\<not> USE_PIPELINING bld \<and> (USE_MPOOL bld \<or> 0 \<le> int32 (count * 4))
          \<longrightarrow> (\<exists>p'. out = Return (MPI_ERR_BUFFER, recvbuf, p')))"
  using assms
  by (cases "free_slabs (sbuf_mpool (hear p))")
     (auto simp: MPI_Allreduce_def update_k_n_def umap_index_def Let_def allreduce_blocking_def
      allreduce_pipelined_def encrypt_sendbuf_def sbuf_alloc_def sbuf_free_def acquire_buf_def
      release_buf_def emit_def cleanup_def release_memory_def K_n_def new_events_def)

theorem float_prod_advances_nonce_witness:
  "k_n_map (hear example_process) 0 = Some 0 \<and> 0 < length (k_n_storage (hear example_process)) \<and>
   \<not> USE_PIPELINING example_build \<and> USE_MPOOL example_build \<and>
   (\<exists>p'. MPI_Allreduce example_build (example_mpl 0 0) example_junk example_process
            [0x3FC00000, 0x40000000] [0, 0] 2 MPI_FLOAT MPI_PROD 0
          = Some (Return (MPI_ERR_BUFFER, [0, 0], p'))
        \<and> K_n (hear p') 0 = Some (example_prng 5)) \<and>
   \<not> USE_PIPELINING plain_heap_build \<and> 0 \<le> int32 (2 * 4) \<and>
   (\<exists>p'. MPI_Allreduce plain_heap_build (example_mpl 0 0) example_junk example_process
            [0x3FC00000, 0x40000000] [0, 0] 2 MPI_FLOAT MPI_PROD 0
          = Some (Return (MPI_ERR_BUFFER, [0, 0], p'))
        \<and> K_n (hear p') 0 = Some (example_prng 5))"
proof -
  have a: "k_n_map (hear example_process) 0 = Some 0" "0 < length (k_n_storage (hear example_process))"
    by (simp_all add: example_defs)
  have b: "\<not> USE_PIPELINING example_build" "USE_MPOOL example_build"
    "\<not> USE_PIPELINING plain_heap_build" "0 \<le> int32 (2 * 4)"
    by (simp_all add: example_build_def plain_heap_build_def int32_def)
  have e: "prng (hear example_process) (k_n_storage (hear example_process) ! 0) = example_prng 5"
    by (simp add: example_process_def example_hear_def)
  from float_prod_advances_nonce [OF a, of example_build "example_mpl 0 0" example_junk
      "[0x3FC00000, 0x40000000]" "[0, 0]" 2] b(1,2) e
  have 1: "\<exists>p'. MPI_Allreduce example_build (example_mpl 0 0) example_junk example_process
            [0x3FC00000, 0x40000000] [0, 0] 2 MPI_FLOAT MPI_PROD 0
          = Some (Return (MPI_ERR_BUFFER, [0, 0], p'))
        \<and> K_n (hear p') 0 = Some (example_prng 5)"
    by auto
  from float_prod_advances_nonce [OF a, of plain_heap_build "example_mpl 0 0" example_junk
      "[0x3FC00000, 0x40000000]" "[0, 0]" 2] b(3,4) e
  have 2: "\<exists>p'. MPI_Allreduce plain_heap_build (example_mpl 0 0) example_junk example_process
            [0x3FC00000, 0x40000000] [0, 0] 2 MPI_FLOAT MPI_PROD 0
          = Some (Return (MPI_ERR_BUFFER, [0, 0], p'))
        \<and> K_n (hear p') 0 = Some (example_prng 5)"
    by auto
  from a b 1 2 show ?thesis by blast
qed

text \<open>
  The same call on the concrete process with pipelining does not return an error: the
  first \<open>encrypt_sendbuf\<close> gives the null pointer, \<^verbatim>\<open>cleanup\<close> passes it to
  \<open>release_memory\<close>, and the call ends at the assertion there, the nonce of the
  communicator advanced from 5.  Neither does the call with \<open>2 ^ 29\<close> elements on the heap
  without pipelining: \<^verbatim>\<open>sbuf_len\<close> is \<open>- (2 ^ 31)\<close> and \<^verbatim>\<open>new char[sbuf_len]\<close> throws.
\<close>

theorem float_prod_pipelined_asserts:
  "ending_of (MPI_Allreduce pipelined_build (example_mpl 0 0) example_junk example_process
      [0x3FC00000, 0x40000000] [0, 0] 2 MPI_FLOAT MPI_PROD 0) = Asserts \<and>
   K_n (hear example_process) 0 = Some 5 \<and>
   K_n (hear (end_state (the (MPI_Allreduce pipelined_build (example_mpl 0 0) example_junk
      example_process [0x3FC00000, 0x40000000] [0, 0] 2 MPI_FLOAT MPI_PROD 0)))) 0
     = Some (example_prng 5) \<and>
   ending_of (MPI_Allreduce plain_heap_build (example_mpl 0 0) example_junk example_process
      (w_send huge_world 0) (w_recv huge_world 0) 536870912 MPI_FLOAT MPI_PROD 0) = Throws"
  by (simp add: run_defs2 K_n_def)

text \<open>
  C1.  The call with float and product on the concrete process, without pipelining: it
  returns \<open>MPI_ERR_BUFFER\<close> and leaves the receive buffer as it was, after advancing the
  nonce of the communicator from 5 and acquiring and releasing slab 0 of the pool, and
  without any shadow call; the native all-reduce with the same arguments returns
  \<open>MPI_SUCCESS\<close> and delivers its result.
\<close>

theorem float_prod_not_forwarded:
  "\<exists>p'. MPI_Allreduce example_build (example_mpl 0 0) example_junk example_process
           [0x3FC00000, 0x40000000] [0, 0] 2 MPI_FLOAT MPI_PROD 0
         = Some (Return (MPI_ERR_BUFFER, [0, 0], p'))
       \<and> K_n (hear example_process) 0 = Some 5
       \<and> K_n (hear p') 0 = Some (example_prng 5)
       \<and> new_events example_process p' = [Ev_update_k_n 0, Ev_acquire (Some 0), Ev_release 0]
       \<and> PMPI_Allreduce (example_mpl 0 0) [0x3FC00000, 0x40000000] [0, 0] 2 MPI_FLOAT MPI_PROD 0
         = (MPI_SUCCESS, [0x3FC00000, 0x40000000])"
  by (simp add: run_defs K_n_def new_events_def)

text \<open>
  C4.  The pipelined call with \<open>count = 0\<close> on the concrete process: the first scratch
  buffer is acquired, the loop body never runs, and the call returns \<open>MPI_SUCCESS\<close>
  with the buffer still held: the pool has three free slabs where it had four, and with
  the heap in place of the pool the block 0 is still live.
\<close>

theorem pipelined_empty_reduction_keeps_buffer:
  "(\<exists>p'. MPI_Allreduce pipelined_build (example_mpl 0 0) example_junk example_process
            [] [] 0 MPI_INT MPI_SUM 0 = Some (Return (MPI_SUCCESS, [], p'))
        \<and> free_count example_process = 4 \<and> free_count p' = 3)
   \<and> (\<exists>p'. MPI_Allreduce heap_build (example_mpl 0 0) example_junk example_process
            [] [] 0 MPI_INT MPI_SUM 0 = Some (Return (MPI_SUCCESS, [], p'))
        \<and> heap_live example_process = [] \<and> heap_live p' = [0])"
  by (simp add: run_defs2 pipeline_loop.simps free_count_def)

text \<open>
  C9.  The pipelined call on the process whose pool has no free slab: the acquisition for
  the first block gives the null pointer, \<^verbatim>\<open>cleanup\<close> passes it to \<open>release_memory\<close>, and
  the call ends at the assertion there instead of returning \<open>MPI_ERR_BUFFER\<close>.
\<close>

theorem pipelined_exhausted_pool_asserts:
  "free_count exhausted_process = 0 \<and>
   (\<exists>q. MPI_Allreduce pipelined_build (example_mpl 0 0) example_junk exhausted_process
            [1, 2, 3] [0, 0, 0] 3 MPI_INT MPI_SUM 0 = Some (AssertFail q)
        \<and> new_events exhausted_process q = [Ev_update_k_n 0, Ev_acquire None])"
  by (simp add: run_defs2 free_count_def new_events_def)




end
